(* ===== verification/Prelude.thy ===== *)
theory Prelude
  imports Main "HOL-Library.Word" "HOL-Library.AList"
begin

text \<open>
  What every other theory shares: the crate's error type (\<open>src/error.rs\<close>), the outcome of
  running a piece of Rust (a value, an error returned with \<open>?\<close>, a panic, or an \<open>.await\<close>
  that cannot complete in the present state), state-passing computations with that outcome,
  the crate's unsigned integers, and \<open>HashMap\<close> as an association list.

  A computation returns the state it leaves behind in every case: a Rust function that fails
  half way keeps the writes it made before.
\<close>

named_theorems outcome_simps \<open>unfolding rules for the state-passing combinators\<close>
named_theorems guarantee_intros \<open>compositional rules for two-state guarantees\<close>

section \<open>Errors (src/error.rs)\<close>

text \<open>
  \<open>StateMachineError\<close> wraps an \<open>anyhow::Error\<close>; the crate only ever displays it, so its text
  stands for it. The text of a \<open>TokioSendError\<close> is produced by tokio and is always a
  parameter (see \<open>receiver\<close> in theory Messages).
\<close>

datatype zeroraft_error =
    Message string
  | TokioSendError string
  | StateMachineError string

definition custom :: "string \<Rightarrow> zeroraft_error" where
  "custom msg = Message msg"

definition from_send_error :: "string \<Rightarrow> zeroraft_error" where
  "from_send_error err = TokioSendError err"

section \<open>Outcomes\<close>

datatype panic =
    ArithmeticOverflow
  | UnwrapNone
  | IndexOutOfBounds
  | EmptyRange
  | DurationUnderflow
  | Unimplemented string
  | Todo string

datatype 'a outcome =
    Ok 'a
  | Err zeroraft_error
  | Panicked panic
  | Blocked

text \<open>
  \<open>map_outcome\<close> (from the datatype package) changes the value of an \<open>Ok\<close>; \<open>is_ok\<close>
  recognises one.
\<close>

definition is_ok :: "'a outcome \<Rightarrow> bool" where
  "is_ok r = (case r of Ok _ \<Rightarrow> True | _ \<Rightarrow> False)"

lemma is_ok_simps [simp]:
  "is_ok (Ok a)" "\<not> is_ok (Err e)" "\<not> is_ok (Panicked p)" "\<not> is_ok Blocked"
  by (simp_all add: is_ok_def)

lemma is_okE [elim]:
  assumes "is_ok r" obtains a where "r = Ok a"
  using assms by (cases r) auto

section \<open>State-passing computations\<close>

type_synonym ('s, 'a) comp = "'s \<Rightarrow> 'a outcome \<times> 's"

definition return_c :: "'a \<Rightarrow> ('s, 'a) comp" where
  "return_c a s = (Ok a, s)"

definition lift_c :: "'a outcome \<Rightarrow> ('s, 'a) comp" where
  "lift_c r s = (r, s)"

definition gets_c :: "('s \<Rightarrow> 'a) \<Rightarrow> ('s, 'a) comp" where
  "gets_c f s = (Ok (f s), s)"

definition modify_c :: "('s \<Rightarrow> 's) \<Rightarrow> ('s, unit) comp" where
  "modify_c f s = (Ok (), f s)"

text \<open>Sequencing: an error, a panic or a blocked await ends the computation where it is.\<close>

definition bind_c :: "('s, 'a) comp \<Rightarrow> ('a \<Rightarrow> ('s, 'b) comp) \<Rightarrow> ('s, 'b) comp" where
  "bind_c m f s =
     (case m s of
        (Ok a, s') \<Rightarrow> f a s'
      | (Err e, s') \<Rightarrow> (Err e, s')
      | (Panicked p, s') \<Rightarrow> (Panicked p, s')
      | (Blocked, s') \<Rightarrow> (Blocked, s'))"

definition then_c :: "('s, 'a) comp \<Rightarrow> ('s, 'b) comp \<Rightarrow> ('s, 'b) comp" where
  "then_c m k = bind_c m (\<lambda>_. k)"

text \<open>A computation on a component of the state, run on the whole of it.\<close>

definition zoom_c :: "('s \<Rightarrow> 't) \<Rightarrow> ('t \<Rightarrow> 's \<Rightarrow> 's) \<Rightarrow> ('t, 'a) comp \<Rightarrow> ('s, 'a) comp" where
  "zoom_c get put m s = (case m (get s) of (r, t) \<Rightarrow> (r, put t s))"

lemmas [outcome_simps] =
  return_c_def lift_c_def gets_c_def modify_c_def then_c_def zoom_c_def

lemma bind_c_Ok [outcome_simps]: "m s = (Ok a, s') \<Longrightarrow> bind_c m f s = f a s'"
  and bind_c_Err [outcome_simps]: "m s = (Err e, s') \<Longrightarrow> bind_c m f s = (Err e, s')"
  and bind_c_Panicked [outcome_simps]: "m s = (Panicked p, s') \<Longrightarrow> bind_c m f s = (Panicked p, s')"
  and bind_c_Blocked [outcome_simps]: "m s = (Blocked, s') \<Longrightarrow> bind_c m f s = (Blocked, s')"
  by (simp_all add: bind_c_def)

lemma bind_c_eq_Ok:
  "bind_c m f s = (Ok b, s') \<longleftrightarrow> (\<exists>a s1. m s = (Ok a, s1) \<and> f a s1 = (Ok b, s'))"
  by (auto simp: bind_c_def split: prod.splits outcome.splits)

lemma then_c_eq_Ok:
  "then_c m k s = (Ok b, s') \<longleftrightarrow> (\<exists>a s1. m s = (Ok a, s1) \<and> k s1 = (Ok b, s'))"
  by (simp add: then_c_def bind_c_eq_Ok)

lemma bind_c_return [simp]: "bind_c (return_c a) f = f a"
  by (simp add: fun_eq_iff bind_c_def return_c_def)

lemma bind_c_assoc: "bind_c (bind_c m f) g = bind_c m (\<lambda>a. bind_c (f a) g)"
  by (simp add: fun_eq_iff bind_c_def split: prod.split outcome.split)

subsection \<open>Two-state guarantees\<close>

text \<open>
  \<open>guarantees R m\<close>: however \<open>m\<close> ends, the state it leaves is \<open>R\<close>-related to the one it
  started in. For a preorder \<open>R\<close> the rules below reduce a handler to its primitive steps.
\<close>

definition guarantees :: "('s \<Rightarrow> 's \<Rightarrow> bool) \<Rightarrow> ('s, 'a) comp \<Rightarrow> bool" where
  "guarantees R m \<longleftrightarrow> (\<forall>s. R s (snd (m s)))"

lemma guaranteesI: "(\<And>s. R s (snd (m s))) \<Longrightarrow> guarantees R m"
  by (simp add: guarantees_def)

lemma guaranteesD: "guarantees R m \<Longrightarrow> m s = (r, s') \<Longrightarrow> R s s'"
  by (metis guarantees_def snd_conv)

lemma guarantees_at: "guarantees R m \<Longrightarrow> R s (snd (m s))"
  by (simp add: guarantees_def)

lemma guarantees_bind [guarantee_intros]:
  assumes "transp R" and m: "guarantees R m" and f: "\<And>a. guarantees R (f a)"
  shows "guarantees R (bind_c m f)"
proof (rule guaranteesI)
  fix s
  obtain r s1 where ms: "m s = (r, s1)" by force
  have 1: "R s s1" using guaranteesD [OF m ms] .
  show "R s (snd (bind_c m f s))"
  proof (cases r)
    case (Ok a)
    have "R s1 (snd (f a s1))" using f by (simp add: guarantees_def)
    with 1 \<open>transp R\<close> have "R s (snd (f a s1))" by (blast dest: transpD)
    with Ok ms show ?thesis by (simp add: bind_c_def)
  qed (use ms 1 in \<open>simp_all add: bind_c_def\<close>)
qed

lemma guarantees_then [guarantee_intros]:
  "transp R \<Longrightarrow> guarantees R m \<Longrightarrow> guarantees R k \<Longrightarrow> guarantees R (then_c m k)"
  by (simp add: then_c_def guarantees_bind)

lemma guarantees_then_at:
  "transp R \<Longrightarrow> guarantees R m \<Longrightarrow> guarantees R k \<Longrightarrow> R s (snd (then_c m k s))"
  by (rule guarantees_at) (rule guarantees_then)

text \<open>A first step known to be good from the state at hand, and a rest that always is.\<close>

lemma guarantees_then_from:
  assumes "transp R" and m: "R s (snd (m s))" and k: "guarantees R k"
  shows "R s (snd (then_c m k s))"
proof -
  obtain r s1 where ms: "m s = (r, s1)" by force
  have "R s1 (snd (k s1))" by (rule guarantees_at [OF k])
  with ms m \<open>transp R\<close> show ?thesis
    by (cases r) (auto simp: then_c_def bind_c_def dest: transpD)
qed

lemma guarantees_pure [guarantee_intros]:
  assumes "reflp R"
  shows "guarantees R (return_c a)" "guarantees R (lift_c r)" "guarantees R (gets_c g)"
  using assms by (simp_all add: guarantees_def return_c_def lift_c_def gets_c_def reflpD)

lemma guarantees_modify:
  "(\<And>s. R s (f s)) \<Longrightarrow> guarantees R (modify_c f)"
  by (simp add: guarantees_def modify_c_def)

lemma guarantees_if [guarantee_intros]:
  "guarantees R m \<Longrightarrow> guarantees R k \<Longrightarrow> guarantees R (if b then m else k)"
  by simp

text \<open>Case distinctions inside a computation.\<close>

lemma guarantees_case [guarantee_intros]:
  "(\<And>a b. guarantees R (f a b)) \<Longrightarrow> guarantees R (case p of (a, b) \<Rightarrow> f a b)"
  "guarantees R m \<Longrightarrow> (\<And>x. guarantees R (k x)) \<Longrightarrow>
     guarantees R (case o' of None \<Rightarrow> m | Some x \<Rightarrow> k x)"
  by (simp_all split: prod.split option.split)

text \<open>A relation on a component, as a relation on the whole.\<close>

definition via :: "('s \<Rightarrow> 't) \<Rightarrow> ('t \<Rightarrow> 't \<Rightarrow> bool) \<Rightarrow> 's \<Rightarrow> 's \<Rightarrow> bool" where
  "via f R s s' = R (f s) (f s')"

lemma via_preorder [guarantee_intros]:
  "reflp R \<Longrightarrow> reflp (via f R)" "transp R \<Longrightarrow> transp (via f R)"
  by (auto simp: via_def intro!: reflpI transpI dest: reflpD transpD)

lemma guarantees_zoom:
  assumes "guarantees R m" and "\<And>x s. f (put x s) = x"
  shows "guarantees (via f R) (zoom_c f put m)"
  using assms by (auto simp: guarantees_def zoom_c_def via_def split: prod.splits) (metis snd_conv)

lemma guarantees_zoom_frame:
  assumes "reflp R" and "\<And>x s. f (put x s) = f s"
  shows "guarantees (via f R) (zoom_c g put m)"
  using assms by (auto simp: guarantees_def zoom_c_def via_def reflpD split: prod.splits)

section \<open>Unsigned integers\<close>

text \<open>
  \<open>u64\<close> is \<open>64 word\<close>. A plain \<open>+\<close> or \<open>-\<close> panics on overflow when the crate is built with
  overflow checks (cargo's default for \<open>cargo test\<close>) and wraps without them (its default for
  a release build), so the operations take the build profile.
\<close>

type_synonym u64 = "64 word"

datatype profile = Checked | Wrapping

definition u64_add :: "profile \<Rightarrow> u64 \<Rightarrow> u64 \<Rightarrow> u64 outcome" where
  "u64_add pr a b =
     (if pr = Checked \<and> 2 ^ 64 \<le> unat a + unat b then Panicked ArithmeticOverflow
      else Ok (a + b))"

definition u64_sub :: "profile \<Rightarrow> u64 \<Rightarrow> u64 \<Rightarrow> u64 outcome" where
  "u64_sub pr a b =
     (if pr = Checked \<and> unat a < unat b then Panicked ArithmeticOverflow else Ok (a - b))"

lemma unat_u64_less: "unat (a :: u64) < 2 ^ 64"
  using unsigned_less [of a, where ?'a = nat] by simp

lemma unat_of_nat_u64: "n < 2 ^ 64 \<Longrightarrow> unat (of_nat n :: u64) = n"
  by (simp add: unsigned_of_nat take_bit_nat_eq_self)

lemma u64_add_Ok_bound:
  "u64_add Checked a b = Ok c \<Longrightarrow> unat c = unat a + unat b"
  by (auto simp: u64_add_def unat_word_ariths split: if_splits)

lemma u64_sub_Ok_bound:
  "u64_sub Checked a b = Ok c \<Longrightarrow> unat c = unat a - unat b"
  by (auto simp: u64_sub_def unat_sub word_le_nat_alt split: if_splits)

lemma u64_less_plus_one:
  fixes a :: u64
  assumes "a \<noteq> - 1" shows "a < a + 1"
proof -
  have "unat a \<noteq> 2 ^ 64 - 1"
  proof
    assume "unat a = 2 ^ 64 - 1"
    then have "unat a = unat (- 1 :: u64)" by (simp add: unsigned_minus_1_eq_mask mask_eq_exp_minus_1)
    then have "a = - 1" by (rule unsigned_word_eqI)
    with assms show False by simp
  qed
  with unat_u64_less [of a] show ?thesis by (simp add: word_less_nat_alt unat_word_ariths)
qed

section \<open>HashMap\<close>

text \<open>
  A \<open>HashMap\<close> is an association list with distinct keys; the order of the list is the map's
  iteration order, which Rust leaves unspecified.
\<close>

type_synonym ('k, 'v) hashmap = "('k \<times> 'v) list"

definition is_hashmap :: "('k, 'v) hashmap \<Rightarrow> bool" where
  "is_hashmap m = distinct (map fst m)"

text \<open>\<open>HashMap::get\<close> and \<open>HashMap::get_mut\<close> followed by a write through the reference.\<close>

definition hm_get :: "('k, 'v) hashmap \<Rightarrow> 'k \<Rightarrow> 'v option" where
  "hm_get m k = map_of m k"

definition hm_set :: "'k \<Rightarrow> 'v \<Rightarrow> ('k, 'v) hashmap \<Rightarrow> ('k, 'v) hashmap" where
  "hm_set k v m = AList.update k v m"

lemma hm_get_set [simp]: "hm_get (hm_set k v m) k' = (if k' = k then Some v else hm_get m k')"
  by (simp add: hm_get_def hm_set_def update_conv')

lemma keys_hm_set [simp]: "fst ` set (hm_set k v m) = insert k (fst ` set m)"
  by (simp add: hm_set_def dom_update)

lemma is_hashmap_set [simp]: "is_hashmap m \<Longrightarrow> is_hashmap (hm_set k v m)"
  by (simp add: is_hashmap_def hm_set_def distinct_update)

lemma hm_get_in_keys: "hm_get m k = Some v \<Longrightarrow> k \<in> fst ` set m"
  by (force simp: hm_get_def dest: map_of_SomeD)

end
