(* ===== verification/Messages.thy ===== *)
theory Messages
  imports Prelude
begin

text \<open>
  The data the parts of the crate exchange: log entries and commands (\<open>src/command.rs\<close>,
  \<open>src/state.rs\<close>), requests (\<open>src/request.rs\<close>), responses (\<open>src/response.rs\<close>), the running
  state of a node (\<open>src/role/state.rs\<close>) and its channels (\<open>src/channels.rs\<close>).

  A \<open>Uuid\<close> is a 128-bit number that the crate only compares and hashes. The types a user
  plugs in for the traits \<open>Request\<close> and \<open>Response\<close> are the type variables \<open>'r\<close> and \<open>'p\<close>.
  Record fields carry a short prefix where several structs of the source share a field name.
\<close>

type_synonym node_id = "128 word"

text \<open>\<open>std::net::SocketAddr\<close>: of its parts the sources only use the address and the port.\<close>

datatype socket_addr = SocketAddr (sa_ip: "32 word") (sa_port: "16 word")

section \<open>Commands and log entries\<close>

datatype 'r command =
    SingleConfig "node_id list"
  | JointConfig "node_id list" "node_id list"
  | ClientCommand 'r

record 'r log_entry =
  le_term :: u64
  le_command :: "'r command"

section \<open>Node roles\<close>

datatype task_state = Follower | Candidate | Leader | NonVoter | Shutdown

definition task_state_default :: task_state where
  "task_state_default = Follower"

section \<open>Responses\<close>

datatype append_entries_response_reason = AeStaleTerm | AeLogMismatch | AeOk

record append_entries_response =
  aer_term :: u64
  aer_success :: bool
  aer_id :: node_id
  aer_len :: u64
  aer_reason :: append_entries_response_reason

datatype request_vote_response_reason = RvStaleTerm | RvAlreadyVoted | RvIncompleteLog | RvOk

record request_vote_response =
  rvr_term :: u64
  rvr_vote_granted :: bool
  rvr_id :: node_id
  rvr_reason :: request_vote_response_reason

datatype client_response_reason = NoLeaderYet | Redirect | ClientOk

record 'p client_response =
  cr_success :: bool
  cr_reason :: client_response_reason
  cr_leader_id :: "node_id option"
  cr_payload :: "'p option"

section \<open>Sending on a channel\<close>

text \<open>
  The receiving half of a tokio channel, seen from the sender: alive, or dropped. Sending to a
  dropped receiver fails with a \<open>SendError\<close>; the text tokio gives that error is the argument
  of \<open>Dropped\<close>. A response channel has capacity one and carries one message, so sending on it
  never waits for room.
\<close>

datatype receiver = Alive | Dropped string

definition send_response :: "receiver \<Rightarrow> 'm \<Rightarrow> 'm outcome" where
  "send_response rx m =
     (case rx of Alive \<Rightarrow> Ok m | Dropped err \<Rightarrow> Err (from_send_error err))"

lemma send_response_eq_Ok [simp]: "send_response rx m = Ok m' \<longleftrightarrow> rx = Alive \<and> m' = m"
  by (auto simp: send_response_def split: receiver.splits)

lemma send_response_Alive [simp]: "send_response Alive m = Ok m"
  by simp

section \<open>Requests\<close>

record 'r append_entries_request =
  ae_term :: u64
  ae_leader_id :: node_id
  ae_last_commit_index :: u64
  ae_prev_log_index :: u64
  ae_prev_log_term :: u64
  ae_entries :: "'r log_entry list"

record request_vote_request =
  rv_term :: u64
  rv_candidate_id :: node_id
  rv_last_log_index :: u64
  rv_last_log_term :: u64

record install_snapshot_request =
  is_term :: u64
  is_leader_id :: node_id
  is_last_commit_index :: u64
  is_prev_log_index :: u64
  is_prev_log_term :: u64

datatype membership_config =
    Single "node_id list"
  | Joint "node_id list" "node_id list"

record config_request =
  cfg_term :: u64
  cfg_leader_id :: node_id
  cfg_last_commit_index :: u64
  cfg_prev_log_index :: u64
  cfg_prev_log_term :: u64
  cfg_config :: membership_config

text \<open>An RPC carries the sending half of its response channel.\<close>

datatype 'r peer_rpc =
    AppendEntries "'r append_entries_request" receiver
  | RequestVote request_vote_request receiver
  | InstallSnapshot install_snapshot_request receiver
  | Config config_request receiver

datatype 'r client_request = ClientRequest 'r receiver

section \<open>Channels (src/channels.rs)\<close>

text \<open>
  One record per channel stands for both of its ends: the messages in flight, oldest first,
  whether the receiver is alive and whether some sender is. Capacity \<open>None\<close> is an unbounded
  channel.
\<close>

record 'm channel =
  ch_queue :: "'m list"
  ch_receiver :: receiver
  ch_sender_alive :: bool
  ch_capacity :: "nat option"

definition unbounded_channel :: "'m channel" where
  "unbounded_channel =
     \<lparr>ch_queue = [], ch_receiver = Alive, ch_sender_alive = True, ch_capacity = None\<rparr>"

definition bounded_channel :: "nat \<Rightarrow> 'm channel" where
  "bounded_channel n =
     \<lparr>ch_queue = [], ch_receiver = Alive, ch_sender_alive = True, ch_capacity = Some n\<rparr>"

definition channel_full :: "'m channel \<Rightarrow> bool" where
  "channel_full ch =
     (case ch_capacity ch of None \<Rightarrow> False | Some n \<Rightarrow> n \<le> length (ch_queue ch))"

text \<open>
  \<open>send(m)\<close>: an error when the receiver is gone, a wait while a bounded channel is full,
  otherwise the message goes to the back of the queue.
\<close>

definition channel_send :: "'m \<Rightarrow> ('m channel, unit) comp" where
  "channel_send m ch =
     (case ch_receiver ch of
        Dropped err \<Rightarrow> (Err (from_send_error err), ch)
      | Alive \<Rightarrow>
          if channel_full ch then (Blocked, ch)
          else (Ok (), ch\<lparr>ch_queue := ch_queue ch @ [m]\<rparr>))"

text \<open>
  \<open>recv()\<close>: the oldest message; \<open>None\<close> once every sender is gone and the queue is empty; a
  wait while the queue is empty and a sender lives.
\<close>

definition channel_recv :: "('m channel, 'm option) comp" where
  "channel_recv ch =
     (case ch_queue ch of
        m # ms \<Rightarrow> (Ok (Some m), ch\<lparr>ch_queue := ms\<rparr>)
      | [] \<Rightarrow> if ch_sender_alive ch then (Blocked, ch) else (Ok None, ch))"

text \<open>
  \<open>RaftSideChannels\<close> and \<open>OutsideChannels\<close> hold opposite ends of the same three channels, and
  the node side holds both ends of the shutdown channel; the record below is the four channels.
\<close>

record 'r raft_channels =
  in_rpc :: "'r peer_rpc channel"
  out_rpc :: "(node_id \<times> 'r peer_rpc) channel"
  in_client_request :: "'r client_request channel"
  shutdown_ch :: "unit channel"

definition create_channels :: "'r raft_channels" where
  "create_channels =
     \<lparr>in_rpc = unbounded_channel, out_rpc = unbounded_channel,
      in_client_request = unbounded_channel, shutdown_ch = bounded_channel 1\<rparr>"

text \<open>
  What is sent on a channel with room arrives, oldest first and once: the receive operation
  undoes the send on an empty queue, and takes from the other end of a non-empty one.
\<close>

lemma channel_send_Ok:
  "channel_send m ch = (Ok (), ch') \<longleftrightarrow>
     ch_receiver ch = Alive \<and> \<not> channel_full ch \<and> ch' = ch\<lparr>ch_queue := ch_queue ch @ [m]\<rparr>"
  by (auto simp: channel_send_def split: receiver.splits)

lemma channel_recv_Some:
  "channel_recv ch = (Ok (Some m), ch') \<longleftrightarrow>
     (\<exists>ms. ch_queue ch = m # ms \<and> ch' = ch\<lparr>ch_queue := ms\<rparr>)"
  by (auto simp: channel_recv_def split: list.splits if_splits)

lemma channel_recv_None:
  "channel_recv ch = (Ok None, ch') \<Longrightarrow> ch_queue ch = [] \<and> \<not> ch_sender_alive ch \<and> ch' = ch"
  by (auto simp: channel_recv_def split: list.splits if_splits)

end
