(* ===== verification/Timeouts.thy ===== *)
theory Timeouts
  imports Prelude
begin

text \<open>
  \<open>src/timeout.rs\<close>. An \<open>Instant\<close> is the number of nanoseconds since some epoch and a
  \<open>Duration\<close> a number of nanoseconds, both as \<open>nat\<close>; the clock reading that the code takes
  with \<open>Instant::now()\<close> is an argument. \<open>gen_range\<close> stands for \<open>rand::thread_rng().gen_range\<close>:
  the \<open>rand\<close> crate documents that it panics on an empty range (written out here) and
  otherwise returns a number of the half-open range (the hypothesis \<open>range_gen\<close>).
\<close>

type_synonym instant = nat
type_synonym duration = nat

definition from_millis :: "u64 \<Rightarrow> duration" where
  "from_millis ms = unat ms * 1000000"

datatype possible_duration = Range u64 u64 | Fixed u64

record timeout =
  to_duration :: possible_duration
  to_start :: instant
  to_current_interval :: duration

definition timeout_start :: "instant \<Rightarrow> u64 \<Rightarrow> timeout" where
  "timeout_start now d =
     \<lparr>to_duration = Fixed d, to_start = now, to_current_interval = from_millis d\<rparr>"

definition start_range ::
    "(u64 \<Rightarrow> u64 \<Rightarrow> u64) \<Rightarrow> instant \<Rightarrow> u64 \<times> u64 \<Rightarrow> timeout outcome" where
  "start_range gen_range now r =
     (case r of (lo, hi) \<Rightarrow>
        if hi \<le> lo then Panicked EmptyRange
        else Ok \<lparr>to_duration = Range lo hi, to_start = now,
                 to_current_interval = from_millis (gen_range lo hi)\<rparr>)"

definition timeout_reset ::
    "(u64 \<Rightarrow> u64 \<Rightarrow> u64) \<Rightarrow> instant \<Rightarrow> timeout \<Rightarrow> timeout outcome" where
  "timeout_reset gen_range now t =
     (case to_duration t of
        Range lo hi \<Rightarrow> start_range gen_range now (lo, hi)
      | Fixed d \<Rightarrow> Ok (timeout_start now d))"

text \<open>\<open>Instant::elapsed\<close> saturates at zero, as subtraction on \<open>nat\<close> does.\<close>

definition get_elapsed :: "instant \<Rightarrow> timeout \<Rightarrow> duration" where
  "get_elapsed now t = now - to_start t"

text \<open>Subtracting a longer \<open>Duration\<close> from a shorter one panics in every build profile.\<close>

definition get_remaining :: "instant \<Rightarrow> timeout \<Rightarrow> duration outcome" where
  "get_remaining now t =
     (if to_current_interval t < get_elapsed now t then Panicked DurationUnderflow
      else Ok (to_current_interval t - get_elapsed now t))"

definition get_interval :: "timeout \<Rightarrow> duration" where
  "get_interval t = to_current_interval t"

text \<open>
  \<open>continuation\<close> sleeps for what remains: the value is the instant at which the sleep ends.
\<close>

definition continuation :: "instant \<Rightarrow> timeout \<Rightarrow> instant outcome" where
  "continuation now t = map_outcome (\<lambda>rem. now + rem) (get_remaining now t)"

definition deadline :: "timeout \<Rightarrow> instant" where
  "deadline t = to_start t + to_current_interval t"

definition range_gen :: "(u64 \<Rightarrow> u64 \<Rightarrow> u64) \<Rightarrow> bool" where
  "range_gen gen_range = (\<forall>lo hi. lo < hi \<longrightarrow> lo \<le> gen_range lo hi \<and> gen_range lo hi < hi)"

section \<open>Properties\<close>

lemma from_millis_mono: "a \<le> b \<Longrightarrow> from_millis a \<le> from_millis b"
  by (simp add: from_millis_def word_le_nat_alt)

lemma from_millis_strict_mono: "a < b \<Longrightarrow> from_millis a < from_millis b"
  by (simp add: from_millis_def word_less_nat_alt)

lemma get_remaining_panics:
  "get_remaining now t = Panicked DurationUnderflow \<longleftrightarrow> deadline t < now"
  by (auto simp: get_remaining_def get_elapsed_def deadline_def)

lemma continuation_Ok:
  "to_start t \<le> now \<Longrightarrow> now \<le> deadline t \<Longrightarrow> continuation now t = Ok (deadline t)"
  by (auto simp: continuation_def get_remaining_def get_elapsed_def deadline_def)

lemma continuation_late:
  "deadline t < now \<Longrightarrow> continuation now t = Panicked DurationUnderflow"
  by (auto simp: continuation_def get_remaining_def get_elapsed_def deadline_def)

text \<open>
  The deadline of a freshly armed or re-armed timeout: a fixed one lies exactly its duration
  after the reset, a random one within its range.
\<close>

definition armed_within :: "instant \<Rightarrow> possible_duration \<Rightarrow> timeout \<Rightarrow> bool" where
  "armed_within now d t \<longleftrightarrow>
     to_duration t = d \<and> to_start t = now \<and>
     (case d of
        Fixed ms \<Rightarrow> deadline t = now + from_millis ms
      | Range lo hi \<Rightarrow> now + from_millis lo \<le> deadline t \<and> deadline t < now + from_millis hi)"

lemma timeout_start_armed: "armed_within now (Fixed d) (timeout_start now d)"
  by (simp add: armed_within_def timeout_start_def deadline_def)

lemma start_range_armed:
  assumes "range_gen gen_range" and "start_range gen_range now (lo, hi) = Ok t"
  shows "armed_within now (Range lo hi) t"
proof -
  from assms(2) have lt: "lo < hi"
    and t: "t = \<lparr>to_duration = Range lo hi, to_start = now,
                 to_current_interval = from_millis (gen_range lo hi)\<rparr>"
    by (auto simp: start_range_def split: if_splits)
  from assms(1) lt have "lo \<le> gen_range lo hi" "gen_range lo hi < hi"
    by (auto simp: range_gen_def)
  with t show ?thesis
    by (auto simp: armed_within_def deadline_def intro: from_millis_mono from_millis_strict_mono)
qed

lemma reset_armed:
  assumes "range_gen gen_range" and "timeout_reset gen_range now t = Ok t'"
  shows "armed_within now (to_duration t) t'"
  using assms
  by (auto simp: timeout_reset_def start_range_armed timeout_start_armed
      split: possible_duration.splits)

lemma reset_Ok_iff:
  "is_ok (timeout_reset gen_range now t) \<longleftrightarrow>
     (\<forall>lo hi. to_duration t = Range lo hi \<longrightarrow> lo < hi)"
  by (auto simp: timeout_reset_def start_range_def split: possible_duration.splits if_splits)

end
