(* ===== verification/State_Trait.thy ===== *)
theory State_Trait
  imports Messages
begin

text \<open>
  The trait \<open>State<R>\<close> of \<open>src/state.rs\<close>, through which every role reaches the log, the
  persisted vote and the membership. A type that implements the trait is a value of the record
  \<open>state_ops\<close>: one field per method the crate calls, over the implementation's own state type
  \<open>'s\<close>. A method with \<open>&mut self\<close> is a computation on \<open>'s\<close> that may fail; one with \<open>&self\<close> is
  a function of it.

  The locale \<open>raft_log\<close> is the contract the trait's comments state, over an abstract log.
  \<open>base\<close> is the index under which \<open>get_entry\<close> and \<open>get_entries\<close> find the first entry: the
  comments say entries start at index 1. \<open>total_log\<close> adds that no method fails.
\<close>

record ('s, 'r) state_ops =
  append_entries :: "'r log_entry list \<Rightarrow> ('s, unit) comp"
  remove_entries_after :: "u64 \<Rightarrow> ('s, unit) comp"
  get_entry :: "'s \<Rightarrow> u64 \<Rightarrow> 'r log_entry option"
  get_entries :: "'s \<Rightarrow> u64 \<Rightarrow> u64 option \<Rightarrow> 'r log_entry list"
  get_last_index :: "'s \<Rightarrow> u64"
  get_last_term :: "'s \<Rightarrow> u64"
  get_last_commit_index :: "'s \<Rightarrow> u64"
  get_last_applied_index :: "'s \<Rightarrow> u64"
  get_membership :: "'s \<Rightarrow> (node_id, socket_addr) hashmap"
  set_initial_membership :: "(node_id, socket_addr) hashmap \<Rightarrow> ('s, unit) comp"
  set_last_commit_index :: "u64 \<Rightarrow> ('s, unit) comp"
  load_voted_for :: "'s \<Rightarrow> node_id option"
  load_current_term :: "'s \<Rightarrow> u64"
  store_voted_for :: "node_id \<Rightarrow> ('s, unit) comp"
  store_current_term :: "u64 \<Rightarrow> ('s, unit) comp"

text \<open>The term of the last entry of a log, and the reading of its length as an index.\<close>

definition last_log_term :: "'r log_entry list \<Rightarrow> u64" where
  "last_log_term es = (if es = [] then 0 else le_term (last es))"

definition last_log_index :: "'r log_entry list \<Rightarrow> u64" where
  "last_log_index es = of_nat (length es)"

text \<open>The entry that position \<open>i\<close> names when the first entry has index \<open>base\<close>.\<close>

definition entry_at :: "nat \<Rightarrow> 'r log_entry list \<Rightarrow> u64 \<Rightarrow> 'r log_entry option" where
  "entry_at base es i =
     (if base \<le> unat i \<and> unat i - base < length es then Some (es ! (unat i - base)) else None)"

lemma entry_at_Some:
  "entry_at base es i = Some e \<longleftrightarrow> base \<le> unat i \<and> unat i - base < length es \<and> es ! (unat i - base) = e"
  by (auto simp: entry_at_def)

lemma entry_at_None: "entry_at base es i = None \<longleftrightarrow> unat i < base \<or> length es \<le> unat i - base"
  by (auto simp: entry_at_def)

text \<open>Raft's log matching: where two logs hold the same term they agree up to there.\<close>

definition log_matching :: "'r log_entry list \<Rightarrow> 'r log_entry list \<Rightarrow> bool" where
  "log_matching xs ys =
     (\<forall>i < min (length xs) (length ys).
        le_term (xs ! i) = le_term (ys ! i) \<longrightarrow> take (Suc i) xs = take (Suc i) ys)"

lemma log_matchingD:
  "log_matching xs ys \<Longrightarrow> i < length xs \<Longrightarrow> i < length ys \<Longrightarrow>
     le_term (xs ! i) = le_term (ys ! i) \<Longrightarrow> take (Suc i) xs = take (Suc i) ys"
  by (simp add: log_matching_def)

lemma log_matching_refl [simp]: "log_matching xs xs"
  by (simp add: log_matching_def)

lemma log_matching_Nil [simp]: "log_matching [] xs" "log_matching xs []"
  by (simp_all add: log_matching_def)

section \<open>The contract\<close>

locale raft_log =
  fixes ops :: "('s, 'r) state_ops"
    and log_of :: "'s \<Rightarrow> 'r log_entry list"
    and base :: nat
  assumes append_law: "append_entries ops es s = (Ok (), s') \<Longrightarrow>
      log_of s' = log_of s @ es
      \<and> get_last_commit_index ops s' = get_last_commit_index ops s
      \<and> get_membership ops s' = get_membership ops s"
    and remove_law: "remove_entries_after ops i s = (Ok (), s') \<Longrightarrow>
      log_of s' = take (unat i) (log_of s)
      \<and> get_last_commit_index ops s' = get_last_commit_index ops s
      \<and> get_membership ops s' = get_membership ops s"
    and commit_law: "set_last_commit_index ops i s = (Ok (), s') \<Longrightarrow>
      log_of s' = log_of s
      \<and> get_last_commit_index ops s' = i
      \<and> get_membership ops s' = get_membership ops s"
    and store_term_law: "store_current_term ops t s = (Ok (), s') \<Longrightarrow>
      log_of s' = log_of s
      \<and> load_current_term ops s' = t
      \<and> get_last_commit_index ops s' = get_last_commit_index ops s
      \<and> get_membership ops s' = get_membership ops s"
    and store_vote_law: "store_voted_for ops c s = (Ok (), s') \<Longrightarrow>
      log_of s' = log_of s
      \<and> load_voted_for ops s' = Some c
      \<and> load_current_term ops s' = load_current_term ops s
      \<and> get_last_commit_index ops s' = get_last_commit_index ops s
      \<and> get_membership ops s' = get_membership ops s"
    and membership_law: "set_initial_membership ops m s = (Ok (), s') \<Longrightarrow>
      get_membership ops s' = m"
    and get_entry_law: "get_entry ops s i = entry_at base (log_of s) i"
    and get_entries_law: "length (log_of s) < 2 ^ 64 \<Longrightarrow>
      get_entries ops s i None = drop (unat i - base) (log_of s)"
    and last_index_law: "get_last_index ops s = last_log_index (log_of s)"
    and last_term_law: "get_last_term ops s = last_log_term (log_of s)"

locale total_log = raft_log +
  assumes append_total: "is_ok (fst (append_entries ops es s))"
    and remove_total: "is_ok (fst (remove_entries_after ops i s))"
    and commit_total: "is_ok (fst (set_last_commit_index ops i s))"
    and store_term_total: "is_ok (fst (store_current_term ops t s))"
    and store_vote_total: "is_ok (fst (store_voted_for ops c s))"
begin

text \<open>Every mutating method returns, and the state it leaves is the one the laws describe.\<close>

lemma append_runs: obtains s' where "append_entries ops es s = (Ok (), s')"
  using append_total by (metis (full_types) is_okE old.unit.exhaust prod.collapse)

lemma remove_runs: obtains s' where "remove_entries_after ops i s = (Ok (), s')"
  using remove_total by (metis (full_types) is_okE old.unit.exhaust prod.collapse)

lemma commit_runs: obtains s' where "set_last_commit_index ops i s = (Ok (), s')"
  using commit_total by (metis (full_types) is_okE old.unit.exhaust prod.collapse)

lemma store_term_runs: obtains s' where "store_current_term ops t s = (Ok (), s')"
  using store_term_total by (metis (full_types) is_okE old.unit.exhaust prod.collapse)

lemma store_vote_runs: obtains s' where "store_voted_for ops c s = (Ok (), s')"
  using store_vote_total by (metis (full_types) is_okE old.unit.exhaust prod.collapse)

end

section \<open>The membership\<close>

text \<open>
  What a running node needs of the membership: however a method ends, it leaves the membership as
  it was. Only \<open>set_initial_membership\<close> changes it, and only the builder calls that.
\<close>

locale fixed_membership =
  fixes ops :: "('s, 'r) state_ops"
  assumes append_members: "get_membership ops (snd (append_entries ops es s)) = get_membership ops s"
    and remove_members: "get_membership ops (snd (remove_entries_after ops i s)) = get_membership ops s"
    and commit_members: "get_membership ops (snd (set_last_commit_index ops i s)) = get_membership ops s"
    and term_members: "get_membership ops (snd (store_current_term ops t s)) = get_membership ops s"
    and vote_members: "get_membership ops (snd (store_voted_for ops c s)) = get_membership ops s"

text \<open>A lawful store that never fails keeps it.\<close>

sublocale total_log \<subseteq> fixed_membership ops
proof
  fix s es i t c
  obtain s1 where "append_entries ops es s = (Ok (), s1)" by (rule append_runs)
  with append_law show "get_membership ops (snd (append_entries ops es s)) = get_membership ops s" by simp
  obtain s2 where "remove_entries_after ops i s = (Ok (), s2)" by (rule remove_runs)
  with remove_law show "get_membership ops (snd (remove_entries_after ops i s)) = get_membership ops s" by simp
  obtain s3 where "set_last_commit_index ops i s = (Ok (), s3)" by (rule commit_runs)
  with commit_law show "get_membership ops (snd (set_last_commit_index ops i s)) = get_membership ops s" by simp
  obtain s4 where "store_current_term ops t s = (Ok (), s4)" by (rule store_term_runs)
  with store_term_law show "get_membership ops (snd (store_current_term ops t s)) = get_membership ops s" by simp
  obtain s5 where "store_voted_for ops c s = (Ok (), s5)" by (rule store_vote_runs)
  with store_vote_law show "get_membership ops (snd (store_voted_for ops c s)) = get_membership ops s" by simp
qed

section \<open>The commit index\<close>

text \<open>
  What the commit index needs: only \<open>set_last_commit_index\<close> moves it, to the index it is given; a
  call that fails may leave it.
\<close>

locale steady_commit =
  fixes ops :: "('s, 'r) state_ops"
  assumes append_commit:
      "get_last_commit_index ops (snd (append_entries ops es s)) = get_last_commit_index ops s"
    and remove_commit:
      "get_last_commit_index ops (snd (remove_entries_after ops i s)) = get_last_commit_index ops s"
    and term_commit:
      "get_last_commit_index ops (snd (store_current_term ops t s)) = get_last_commit_index ops s"
    and vote_commit:
      "get_last_commit_index ops (snd (store_voted_for ops c s)) = get_last_commit_index ops s"
    and commit_commit:
      "get_last_commit_index ops (snd (set_last_commit_index ops i s)) \<in> {i, get_last_commit_index ops s}"

sublocale total_log \<subseteq> steady_commit ops
proof
  fix s es i t c
  obtain s1 where "append_entries ops es s = (Ok (), s1)" by (rule append_runs)
  with append_law show "get_last_commit_index ops (snd (append_entries ops es s)) = get_last_commit_index ops s" by simp
  obtain s2 where "remove_entries_after ops i s = (Ok (), s2)" by (rule remove_runs)
  with remove_law show "get_last_commit_index ops (snd (remove_entries_after ops i s)) = get_last_commit_index ops s" by simp
  obtain s3 where "set_last_commit_index ops i s = (Ok (), s3)" by (rule commit_runs)
  with commit_law show "get_last_commit_index ops (snd (set_last_commit_index ops i s)) \<in> {i, get_last_commit_index ops s}" by simp
  obtain s4 where "store_current_term ops t s = (Ok (), s4)" by (rule store_term_runs)
  with store_term_law show "get_last_commit_index ops (snd (store_current_term ops t s)) = get_last_commit_index ops s" by simp
  obtain s5 where "store_voted_for ops c s = (Ok (), s5)" by (rule store_vote_runs)
  with store_vote_law show "get_last_commit_index ops (snd (store_voted_for ops c s)) = get_last_commit_index ops s" by simp
qed

end
