(* ===== verification/Memory_State.thy ===== *)
theory Memory_State
  imports State_Trait
begin

text \<open>
  \<open>MemoryState\<close>, the implementation of the trait \<open>State\<close> that the repository's tests run on
  (\<open>tests/fixtures/state.rs\<close>). \<open>as usize\<close> and \<open>as u64\<close> are the identity on a 64-bit target.

  It is an instance of the contract with \<open>base = 0\<close>: its \<open>get_entry\<close> and \<open>get_entries\<close> count
  from 0, while \<open>get_last_index\<close> and \<open>remove_entries_after\<close> count from 1. The theory also
  holds \<open>indexed_ops\<close>, the same store with those two methods counting from 1 as the trait's
  comments say; it is the reference instance at which the contract's documented reading
  (\<open>base = 1\<close>) is shown to have a model.
\<close>

record 'r memory_state =
  ms_entries :: "'r log_entry list"
  ms_membership :: "(node_id, socket_addr) hashmap"
  ms_commit_index :: u64
  ms_applied_index :: u64
  ms_current_term :: u64
  ms_voted_for :: "node_id option"

definition memory_state_default :: "'r memory_state" where
  "memory_state_default =
     \<lparr>ms_entries = [], ms_membership = [], ms_commit_index = 0, ms_applied_index = 0,
      ms_current_term = 0, ms_voted_for = None\<rparr>"

fun ms_push_all :: "'r log_entry list \<Rightarrow> 'r memory_state \<Rightarrow> 'r memory_state" where
  "ms_push_all [] s = s"
| "ms_push_all (e # es) s = ms_push_all es (s\<lparr>ms_entries := ms_entries s @ [e]\<rparr>)"

definition ms_append_entries :: "'r log_entry list \<Rightarrow> ('r memory_state, unit) comp" where
  "ms_append_entries es s =
     (let s1 = ms_push_all es s
      in (Ok (), s1\<lparr>ms_current_term :=
            (if ms_entries s1 = [] then 0 else le_term (last (ms_entries s1)))\<rparr>))"

definition ms_remove_entries_after :: "u64 \<Rightarrow> ('r memory_state, unit) comp" where
  "ms_remove_entries_after index s = (Ok (), s\<lparr>ms_entries := take (unat index) (ms_entries s)\<rparr>)"

definition ms_get_entry :: "'r memory_state \<Rightarrow> u64 \<Rightarrow> 'r log_entry option" where
  "ms_get_entry s index =
     (if unat index < length (ms_entries s) then Some (ms_entries s ! unat index) else None)"

definition ms_get_entries ::
    "'r memory_state \<Rightarrow> u64 \<Rightarrow> u64 option \<Rightarrow> 'r log_entry list" where
  "ms_get_entries s start lim =
     (let n = (case lim of Some k \<Rightarrow> k | None \<Rightarrow> of_nat (length (ms_entries s)))
      in take (unat n) (drop (unat start) (ms_entries s)))"

definition ms_get_last_index :: "'r memory_state \<Rightarrow> u64" where
  "ms_get_last_index s = of_nat (length (ms_entries s))"

definition ms_get_last_term :: "'r memory_state \<Rightarrow> u64" where
  "ms_get_last_term s = (if ms_entries s = [] then 0 else le_term (last (ms_entries s)))"

definition ms_set_initial_membership ::
    "(node_id, socket_addr) hashmap \<Rightarrow> ('r memory_state, unit) comp" where
  "ms_set_initial_membership m s =
     (if ms_membership s = [] then (Ok (), s\<lparr>ms_membership := m\<rparr>)
      else (Err (custom ''membership already set''), s))"

definition ms_set_last_commit_index :: "u64 \<Rightarrow> ('r memory_state, unit) comp" where
  "ms_set_last_commit_index index s = (Ok (), s\<lparr>ms_commit_index := index\<rparr>)"

definition ms_store_voted_for :: "node_id \<Rightarrow> ('r memory_state, unit) comp" where
  "ms_store_voted_for v s = (Ok (), s\<lparr>ms_voted_for := Some v\<rparr>)"

definition ms_store_current_term :: "u64 \<Rightarrow> ('r memory_state, unit) comp" where
  "ms_store_current_term t s = (Ok (), s\<lparr>ms_current_term := t\<rparr>)"

definition memory_ops :: "('r memory_state, 'r) state_ops" where
  "memory_ops =
     \<lparr>append_entries = ms_append_entries,
      remove_entries_after = ms_remove_entries_after,
      get_entry = ms_get_entry,
      get_entries = ms_get_entries,
      get_last_index = ms_get_last_index,
      get_last_term = ms_get_last_term,
      get_last_commit_index = ms_commit_index,
      get_last_applied_index = ms_applied_index,
      get_membership = ms_membership,
      set_initial_membership = ms_set_initial_membership,
      set_last_commit_index = ms_set_last_commit_index,
      load_voted_for = ms_voted_for,
      load_current_term = ms_current_term,
      store_voted_for = ms_store_voted_for,
      store_current_term = ms_store_current_term\<rparr>"

lemma memory_ops_sel [simp]:
  "append_entries memory_ops = ms_append_entries"
  "remove_entries_after memory_ops = ms_remove_entries_after"
  "get_entry memory_ops = ms_get_entry"
  "get_entries memory_ops = ms_get_entries"
  "get_last_index memory_ops = ms_get_last_index"
  "get_last_term memory_ops = ms_get_last_term"
  "get_last_commit_index memory_ops = ms_commit_index"
  "get_last_applied_index memory_ops = ms_applied_index"
  "get_membership memory_ops = ms_membership"
  "set_initial_membership memory_ops = ms_set_initial_membership"
  "set_last_commit_index memory_ops = ms_set_last_commit_index"
  "load_voted_for memory_ops = ms_voted_for"
  "load_current_term memory_ops = ms_current_term"
  "store_voted_for memory_ops = ms_store_voted_for"
  "store_current_term memory_ops = ms_store_current_term"
  by (simp_all add: memory_ops_def)

lemmas memory_defs =
  ms_append_entries_def ms_remove_entries_after_def ms_get_entry_def ms_get_entries_def
  ms_get_last_index_def ms_get_last_term_def ms_set_initial_membership_def
  ms_set_last_commit_index_def ms_store_voted_for_def ms_store_current_term_def

lemma ms_push_all_eq: "ms_push_all es s = s\<lparr>ms_entries := ms_entries s @ es\<rparr>"
  by (induction es arbitrary: s) simp_all

text \<open>
  The default limit of \<open>get_entries\<close> is the log's length read as a \<open>u64\<close>, which is long enough
  for every log that fits in memory.
\<close>

lemma ms_get_entries_None:
  "length (ms_entries s) < 2 ^ 64 \<Longrightarrow> ms_get_entries s i None = drop (unat i) (ms_entries s)"
  by (simp add: ms_get_entries_def unat_of_nat_u64)

interpretation memory: total_log memory_ops ms_entries 0
  by unfold_locales
    (auto simp: memory_defs ms_push_all_eq last_log_term_def last_log_index_def entry_at_def
      unat_of_nat_u64 Let_def split: if_splits)

section \<open>The documented reading: entries counted from 1\<close>

text \<open>
  The same store with \<open>get_entry\<close> and \<open>get_entries\<close> as the trait's comments describe them: the
  first entry has index 1, and a missing limit means no limit.
\<close>

definition indexed_ops :: "('r memory_state, 'r) state_ops" where
  "indexed_ops = memory_ops
     \<lparr>get_entry := (\<lambda>s i. entry_at 1 (ms_entries s) i),
      get_entries := (\<lambda>s i lim.
        (case lim of None \<Rightarrow> drop (unat i - 1) (ms_entries s)
         | Some n \<Rightarrow> take (unat n) (drop (unat i - 1) (ms_entries s))))\<rparr>"

interpretation indexed: total_log indexed_ops ms_entries 1
  by unfold_locales
    (auto simp: indexed_ops_def memory_defs ms_push_all_eq last_log_term_def last_log_index_def
      Let_def split: if_splits)

end
