(* ===== verification/Raft_Node.thy ===== *)
theory Raft_Node
  imports State_Trait Timeouts
begin

text \<open>
  \<open>RaftNode\<close> of \<open>src/node.rs\<close> and its builder \<open>src/builder.rs\<close>. The node is an \<open>Arc\<close> that every
  task of the node shares; its fields, each behind an atomic or a lock that a method takes and
  releases at once, are one record. The store \<open>nd_state\<close> is reached through the methods of the
  trait \<open>State\<close>, given as the argument \<open>ops\<close>.

  A method is modelled as one computation, so the interleavings that the machine of theory Node_System
  admits are those at the granularity of methods and message handlers; theory Preemption cuts them
  into single accesses.
\<close>

record ('s, 'r) raft_node =
  nd_id :: node_id
  nd_current_term :: u64
  nd_voted_for :: "node_id option"
  nd_state :: 's
  nd_channels :: "'r raft_channels"
  nd_current_state :: task_state
  nd_election_timeout_range :: "u64 \<times> u64"
  nd_heartbeat_interval :: u64
  nd_leader_id :: "node_id option"
  nd_last_heard_from_leader :: "instant option"

type_synonym ('s, 'r, 'a) node_comp = "(('s, 'r) raft_node, 'a) comp"

text \<open>A call of a mutating method of the store, under its write lock.\<close>

definition on_state :: "('s, 'a) comp \<Rightarrow> ('s, 'r, 'a) node_comp" where
  "on_state m = zoom_c nd_state (\<lambda>s n. n\<lparr>nd_state := s\<rparr>) m"

text \<open>A send on the channel to the outside.\<close>

definition on_out_rpc :: "(((node_id \<times> 'r peer_rpc) channel), 'a) comp \<Rightarrow> ('s, 'r, 'a) node_comp" where
  "on_out_rpc m = zoom_c (\<lambda>n. out_rpc (nd_channels n))
     (\<lambda>ch n. n\<lparr>nd_channels := (nd_channels n)\<lparr>out_rpc := ch\<rparr>\<rparr>) m"

definition on_shutdown :: "(unit channel, 'a) comp \<Rightarrow> ('s, 'r, 'a) node_comp" where
  "on_shutdown m = zoom_c (\<lambda>n. shutdown_ch (nd_channels n))
     (\<lambda>ch n. n\<lparr>nd_channels := (nd_channels n)\<lparr>shutdown_ch := ch\<rparr>\<rparr>) m"

section \<open>Changing state\<close>

definition change_to_follower_state :: "('s, 'r) raft_node \<Rightarrow> ('s, 'r) raft_node" where
  "change_to_follower_state n = n\<lparr>nd_current_state := Follower\<rparr>"

definition change_to_candidate_state :: "('s, 'r) raft_node \<Rightarrow> ('s, 'r) raft_node" where
  "change_to_candidate_state n = n\<lparr>nd_current_state := Candidate\<rparr>"

definition change_to_leader_state :: "('s, 'r) raft_node \<Rightarrow> ('s, 'r) raft_node" where
  "change_to_leader_state n = n\<lparr>nd_current_state := Leader\<rparr>"

definition change_to_shutdown_state :: "('s, 'r) raft_node \<Rightarrow> ('s, 'r) raft_node" where
  "change_to_shutdown_state n = n\<lparr>nd_current_state := Shutdown\<rparr>"

text \<open>\<open>AtomicU64::fetch_add\<close> wraps around in every build profile.\<close>

definition increment_term :: "('s, 'r) raft_node \<Rightarrow> ('s, 'r) raft_node" where
  "increment_term n = n\<lparr>nd_current_term := nd_current_term n + 1\<rparr>"

definition vote_for_self :: "('s, 'r) raft_node \<Rightarrow> ('s, 'r) raft_node" where
  "vote_for_self n = n\<lparr>nd_voted_for := Some (nd_id n)\<rparr>"

text \<open>The persisted values are written first; an error leaves the values in memory alone.\<close>

definition update_current_term_and_voted_for ::
    "('s, 'r) state_ops \<Rightarrow> u64 \<Rightarrow> node_id \<Rightarrow> ('s, 'r, unit) node_comp" where
  "update_current_term_and_voted_for ops t candidate =
     then_c (on_state (store_current_term ops t))
    (then_c (on_state (store_voted_for ops candidate))
    (then_c (modify_c (\<lambda>n. n\<lparr>nd_current_term := t\<rparr>))
            (modify_c (\<lambda>n. n\<lparr>nd_voted_for := Some candidate\<rparr>))))"

definition update_current_term ::
    "('s, 'r) state_ops \<Rightarrow> u64 \<Rightarrow> ('s, 'r, unit) node_comp" where
  "update_current_term ops t =
     then_c (on_state (store_current_term ops t))
            (modify_c (\<lambda>n. n\<lparr>nd_current_term := t\<rparr>))"

definition update_last_heard_from_leader ::
    "instant \<Rightarrow> ('s, 'r) raft_node \<Rightarrow> ('s, 'r) raft_node" where
  "update_last_heard_from_leader now n = n\<lparr>nd_last_heard_from_leader := Some now\<rparr>"

definition update_leader_id :: "node_id \<Rightarrow> ('s, 'r) raft_node \<Rightarrow> ('s, 'r) raft_node" where
  "update_leader_id l n = n\<lparr>nd_leader_id := Some l\<rparr>"

section \<open>Reading state\<close>

definition is_follower_state :: "('s, 'r) raft_node \<Rightarrow> bool" where
  "is_follower_state n = (nd_current_state n = Follower)"

definition is_candidate_state :: "('s, 'r) raft_node \<Rightarrow> bool" where
  "is_candidate_state n = (nd_current_state n = Candidate)"

definition is_shutdown_state :: "('s, 'r) raft_node \<Rightarrow> bool" where
  "is_shutdown_state n = (nd_current_state n = Shutdown)"

definition is_leader_state :: "('s, 'r) raft_node \<Rightarrow> bool" where
  "is_leader_state n = (nd_current_state n = Leader)"

definition get_peer :: "('s, 'r) state_ops \<Rightarrow> node_id \<Rightarrow> ('s, 'r) raft_node \<Rightarrow> socket_addr option" where
  "get_peer ops i n = hm_get (get_membership ops (nd_state n)) i"

definition new_election_timeout ::
    "(u64 \<Rightarrow> u64 \<Rightarrow> u64) \<Rightarrow> instant \<Rightarrow> ('s, 'r) raft_node \<Rightarrow> timeout outcome" where
  "new_election_timeout gen_range now n = start_range gen_range now (nd_election_timeout_range n)"

section \<open>Outgoing RPCs\<close>

definition request_vote_request_of ::
    "('s, 'r) state_ops \<Rightarrow> ('s, 'r) raft_node \<Rightarrow> request_vote_request" where
  "request_vote_request_of ops n =
     \<lparr>rv_term = nd_current_term n,
      rv_candidate_id = nd_id n,
      rv_last_log_index = get_last_index ops (nd_state n),
      rv_last_log_term = get_last_term ops (nd_state n)\<rparr>"

text \<open>Composing the vote request and handing it to the outside.\<close>

definition emit_request_vote :: "('s, 'r) state_ops \<Rightarrow> node_id \<Rightarrow> ('s, 'r, unit) node_comp" where
  "emit_request_vote ops peer =
     bind_c (gets_c (request_vote_request_of ops)) (\<lambda>request.
       on_out_rpc (channel_send (peer, RequestVote request Alive)))"

definition emit_append_entries ::
    "'r append_entries_request \<Rightarrow> node_id \<Rightarrow> ('s, 'r, unit) node_comp" where
  "emit_append_entries request peer =
     on_out_rpc (channel_send (peer, AppendEntries request Alive))"

text \<open>
  Waiting for the reply is the environment's move: \<open>reply\<close> is what \<open>response_rx.recv()\<close> gives,
  \<open>None\<close> when the other side dropped its end, which the code unwraps. The reply is then passed
  on to the task that asked, whose receiver may be gone.
\<close>

definition await_reply :: "'m option \<Rightarrow> receiver \<Rightarrow> 'm outcome" where
  "await_reply reply task_rx =
     (case reply of None \<Rightarrow> Panicked UnwrapNone | Some r \<Rightarrow> send_response task_rx r)"

definition send_request_vote_rpc ::
    "('s, 'r) state_ops \<Rightarrow> node_id \<Rightarrow> request_vote_response option \<Rightarrow> receiver
       \<Rightarrow> ('s, 'r, request_vote_response) node_comp" where
  "send_request_vote_rpc ops peer reply vote_tx =
     then_c (emit_request_vote ops peer) (lift_c (await_reply reply vote_tx))"

definition send_append_entries_rpc ::
    "'r append_entries_request \<Rightarrow> node_id \<Rightarrow> append_entries_response option \<Rightarrow> receiver
       \<Rightarrow> ('s, 'r, append_entries_response) node_comp" where
  "send_append_entries_rpc request peer reply append_entries_tx =
     then_c (emit_append_entries request peer) (lift_c (await_reply reply append_entries_tx))"

definition node_shutdown :: "('s, 'r, unit) node_comp" where
  "node_shutdown = on_shutdown (channel_send ())"

section \<open>Lemmas\<close>

lemmas node_read_defs =
  is_follower_state_def is_candidate_state_def is_shutdown_state_def is_leader_state_def

lemmas node_change_defs =
  change_to_follower_state_def change_to_candidate_state_def change_to_leader_state_def
  change_to_shutdown_state_def increment_term_def vote_for_self_def
  update_last_heard_from_leader_def update_leader_id_def

lemma on_state_run:
  "on_state m n = (case m (nd_state n) of (r, s) \<Rightarrow> (r, n\<lparr>nd_state := s\<rparr>))"
  by (simp add: on_state_def zoom_c_def)

lemma on_out_rpc_run:
  "on_out_rpc m n = (case m (out_rpc (nd_channels n)) of
     (r, ch) \<Rightarrow> (r, n\<lparr>nd_channels := (nd_channels n)\<lparr>out_rpc := ch\<rparr>\<rparr>))"
  by (simp add: on_out_rpc_def zoom_c_def)

lemma on_state_eq_Ok:
  "on_state m n = (Ok a, n') \<longleftrightarrow> (\<exists>s'. m (nd_state n) = (Ok a, s') \<and> n' = n\<lparr>nd_state := s'\<rparr>)"
  by (auto simp: on_state_run split: prod.splits)

lemma update_current_term_Ok:
  "update_current_term ops t n = (Ok (), n') \<longleftrightarrow>
     (\<exists>s'. store_current_term ops t (nd_state n) = (Ok (), s') \<and>
           n' = n\<lparr>nd_state := s', nd_current_term := t\<rparr>)"
  by (auto simp: update_current_term_def then_c_eq_Ok on_state_eq_Ok modify_c_def)

lemma update_both_Ok:
  "update_current_term_and_voted_for ops t c n = (Ok (), n') \<longleftrightarrow>
     (\<exists>s1 s2. store_current_term ops t (nd_state n) = (Ok (), s1) \<and>
              store_voted_for ops c s1 = (Ok (), s2) \<and>
              n' = n\<lparr>nd_state := s2, nd_current_term := t, nd_voted_for := Some c\<rparr>)"
  by (auto simp: update_current_term_and_voted_for_def then_c_eq_Ok on_state_eq_Ok modify_c_def)

text \<open>
  Failure of a store leaves the term and the vote in memory as they were: what is in memory
  changes only after both writes succeeded.
\<close>

lemma update_both_failed:
  assumes "update_current_term_and_voted_for ops t c n = (r, n')" and "\<not> is_ok r"
  shows "nd_current_term n' = nd_current_term n" "nd_voted_for n' = nd_voted_for n"
    "nd_current_state n' = nd_current_state n"
  using assms
  by (auto simp: update_current_term_and_voted_for_def bind_c_def on_state_run outcome_simps
      split: prod.splits outcome.splits)

lemma update_current_term_failed:
  assumes "update_current_term ops t n = (r, n')" and "\<not> is_ok r"
  shows "nd_current_term n' = nd_current_term n" "nd_voted_for n' = nd_voted_for n"
    "nd_current_state n' = nd_current_state n"
  using assms
  by (auto simp: update_current_term_def bind_c_def on_state_run outcome_simps
      split: prod.splits outcome.splits)

text \<open>\<open>update_current_term\<close> never touches the vote, whatever the store does.\<close>

lemma update_current_term_keeps_vote:
  "nd_voted_for (snd (update_current_term ops t n)) = nd_voted_for n"
  by (auto simp: update_current_term_def bind_c_def on_state_run outcome_simps
      split: prod.splits outcome.splits)

section \<open>What a handler may do to the term\<close>

text \<open>
  \<open>term_moves_to t\<close>: the node is the same node with the same channels and timings, and its term
  is what it was or \<open>t\<close>. It is a preorder, so it composes along a handler, and both update
  methods keep it however the store behaves.
\<close>

definition term_moves_to :: "u64 \<Rightarrow> ('s, 'r) raft_node \<Rightarrow> ('s, 'r) raft_node \<Rightarrow> bool" where
  "term_moves_to t n n' \<longleftrightarrow>
     nd_id n' = nd_id n \<and> nd_channels n' = nd_channels n \<and>
     nd_election_timeout_range n' = nd_election_timeout_range n \<and>
     nd_heartbeat_interval n' = nd_heartbeat_interval n \<and>
     (nd_current_term n' = nd_current_term n \<or> nd_current_term n' = t)"

lemma term_moves_to_preorder [guarantee_intros]:
  "reflp (term_moves_to t)" "transp (term_moves_to t)"
  by (auto simp: term_moves_to_def intro!: reflpI transpI)

lemma term_moves_to_state [guarantee_intros]: "guarantees (term_moves_to t) (on_state m)"
  by (auto simp: guarantees_def on_state_run term_moves_to_def split: prod.split)

lemma term_moves_to_changes [guarantee_intros]:
  "guarantees (term_moves_to t) (modify_c change_to_follower_state)"
  "guarantees (term_moves_to t) (modify_c (update_last_heard_from_leader now))"
  "guarantees (term_moves_to t) (modify_c (update_leader_id l))"
  "guarantees (term_moves_to t) (modify_c (\<lambda>n. n\<lparr>nd_current_term := t\<rparr>))"
  "guarantees (term_moves_to t) (modify_c (\<lambda>n. n\<lparr>nd_voted_for := v\<rparr>))"
  by (auto simp: guarantees_def modify_c_def term_moves_to_def node_change_defs)

lemma term_moves_to_update [guarantee_intros]:
  "guarantees (term_moves_to t) (update_current_term ops t)"
  "guarantees (term_moves_to t) (update_current_term_and_voted_for ops t c)"
  unfolding update_current_term_def update_current_term_and_voted_for_def
  by (intro guarantee_intros)+

lemmas term_moves_to_at = guarantees_then_at [where R = "term_moves_to t" for t]

section \<open>What a task may do to a node\<close>

text \<open>
  \<open>node_frame L D K\<close>: a step keeps the node's id and timings, never takes a cast vote back to
  none, never makes a node a non-voter, promotes it to leader only if \<open>L\<close>, lowers its term
  only if \<open>D\<close>, and leaves a candidate behind that is not one of the same term only if \<open>K\<close>.
\<close>

definition node_frame ::
    "bool \<Rightarrow> bool \<Rightarrow> bool \<Rightarrow> ('s, 'r) raft_node \<Rightarrow> ('s, 'r) raft_node \<Rightarrow> bool" where
  "node_frame L D K n n' \<longleftrightarrow>
     nd_id n' = nd_id n \<and>
     nd_election_timeout_range n' = nd_election_timeout_range n \<and>
     nd_heartbeat_interval n' = nd_heartbeat_interval n \<and>
     (nd_voted_for n \<noteq> None \<longrightarrow> nd_voted_for n' \<noteq> None) \<and>
     (nd_current_state n \<noteq> NonVoter \<longrightarrow> nd_current_state n' \<noteq> NonVoter) \<and>
     (nd_current_state n' = Leader \<longrightarrow> L \<or> nd_current_state n = Leader) \<and>
     (nd_current_term n' < nd_current_term n \<longrightarrow> D) \<and>
     (nd_current_state n' = Candidate \<longrightarrow>
        K \<or> nd_current_state n = Candidate \<and> nd_current_term n' = nd_current_term n)"

lemma node_frame_weaken:
  "node_frame L D K n n' \<Longrightarrow> (L \<Longrightarrow> L') \<Longrightarrow> (D \<Longrightarrow> D') \<Longrightarrow> (K \<Longrightarrow> K') \<Longrightarrow>
     node_frame L' D' K' n n'"
  by (auto simp: node_frame_def)

lemma node_frame_refl [simp]: "node_frame L D K n n"
  by (simp add: node_frame_def)

lemma node_frame_preorder [guarantee_intros]: "reflp (node_frame L D K)" "transp (node_frame L D K)"
  by (auto simp: node_frame_def intro!: reflpI transpI)

lemma node_frame_channels [simp]: "node_frame L D K n (n\<lparr>nd_channels := ch\<rparr>)"
  by (simp add: node_frame_def)

lemma node_frame_state [guarantee_intros]: "guarantees (node_frame L D K) (on_state m)"
  by (auto simp: guarantees_def on_state_run node_frame_def split: prod.split)

lemma node_frame_send [guarantee_intros]:
  "guarantees (node_frame L D K) (on_out_rpc m)" "guarantees (node_frame L D K) (on_shutdown k)"
  by (auto simp: guarantees_def on_out_rpc_def on_shutdown_def zoom_c_def split: prod.split)

lemma node_frame_changes [guarantee_intros]:
  "guarantees (node_frame L D K) (modify_c change_to_follower_state)"
  "guarantees (node_frame L D True) (modify_c change_to_candidate_state)"
  "guarantees (node_frame True D K) (modify_c change_to_leader_state)"
  "guarantees (node_frame L D K) (modify_c change_to_shutdown_state)"
  "guarantees (node_frame L D K) (modify_c (update_last_heard_from_leader now))"
  "guarantees (node_frame L D K) (modify_c (update_leader_id l))"
  "guarantees (node_frame L True True) (modify_c (\<lambda>n. n\<lparr>nd_current_term := t\<rparr>))"
  "guarantees (node_frame L D K) (modify_c (\<lambda>n. n\<lparr>nd_voted_for := Some c\<rparr>))"
  by (auto simp: guarantees_def modify_c_def node_frame_def node_change_defs)

lemma node_frame_update [guarantee_intros]:
  "guarantees (node_frame L True True) (update_current_term ops t)"
  "guarantees (node_frame L True True) (update_current_term_and_voted_for ops t c)"
  unfolding update_current_term_def update_current_term_and_voted_for_def
  by (intro guarantee_intros)+

text \<open>
  Stepping down: the update of the term, and the change to follower if it succeeded. However the
  store behaves no candidate of another term is left.
\<close>

lemma step_down_frame:
  assumes up: "m = update_current_term ops t \<or> m = update_current_term_and_voted_for ops t c"
    and run: "m n = (r, n1)"
  shows "node_frame L (t < nd_current_term n) K n (if is_ok r then change_to_follower_state n1 else n1)"
proof -
  have "node_frame L True True n n1" "nd_current_term n1 \<in> {nd_current_term n, t}"
    using up guaranteesD [OF node_frame_update(1), of ops t n r n1 L]
      guaranteesD [OF node_frame_update(2), of ops t c n r n1 L] run
      guaranteesD [OF term_moves_to_update(1), of ops t n r n1]
      guaranteesD [OF term_moves_to_update(2), of ops t c n r n1]
    by (auto simp: term_moves_to_def)
  moreover have "nd_current_term n1 = nd_current_term n \<and> nd_current_state n1 = nd_current_state n"
    if "\<not> is_ok r"
    using up run that update_current_term_failed [of ops t n r n1] update_both_failed [of ops t c n r n1]
    by auto
  ultimately show ?thesis
    by (cases "is_ok r") (auto simp: node_frame_def change_to_follower_state_def)
qed

lemma step_down_then:
  assumes up: "m = update_current_term ops t \<or> m = update_current_term_and_voted_for ops t c"
    and D: "t < nd_current_term n \<Longrightarrow> D" and k: "guarantees (node_frame L D K) k"
  shows "node_frame L D K n (snd (then_c m (then_c (modify_c change_to_follower_state) k) n))"
proof -
  obtain r n1 where run: "m n = (r, n1)" by force
  have one: "node_frame L D K n (if is_ok r then change_to_follower_state n1 else n1)"
    by (rule node_frame_weaken [OF step_down_frame [OF up run]]) (use D in simp_all)
  show ?thesis
  proof (cases r)
    case (Ok u)
    have "node_frame L D K (change_to_follower_state n1) (snd (k (change_to_follower_state n1)))"
      by (rule guarantees_at [OF k])
    with one Ok have "node_frame L D K n (snd (k (change_to_follower_state n1)))"
      using transpD [OF node_frame_preorder(2)] by fastforce
    with run Ok show ?thesis by (simp add: then_c_def bind_c_def modify_c_def)
  qed (use one run in \<open>simp_all add: then_c_def bind_c_def\<close>)
qed

lemma node_frame_emit [guarantee_intros]:
  "guarantees (node_frame L D K) (emit_request_vote ops peer)"
  "guarantees (node_frame L D K) (emit_append_entries req peer)"
  "guarantees (node_frame L D K) (send_append_entries_rpc req peer rep rx)"
  "guarantees (node_frame L D K) node_shutdown"
  unfolding emit_request_vote_def emit_append_entries_def send_append_entries_rpc_def
    node_shutdown_def
  by (intro guarantee_intros)+

lemmas node_frame_at = guarantees_then_at [where R = "node_frame L D K" for L D K]

end
