(* ===== verification/Builder.thy ===== *)
theory Builder
  imports Raft_Node Memory_State
begin

text \<open>
  \<open>RaftNodeBuilder\<close> of \<open>src/builder.rs\<close>. Its type parameter \<open>Channels\<close> is \<open>'ch\<close>: the unit type
  until \<open>channels\<close> has been called, and only a builder that has channels can build. The fresh
  id (\<open>Uuid::new_v4()\<close>), the store's default and the two default timings (constants of the
  crate \<open>zeroutils_config\<close>) are arguments of \<open>builder_default\<close>.
\<close>

record ('s, 'ch) raft_node_builder =
  b_id :: node_id
  b_state :: 's
  b_seeds :: "(node_id, socket_addr) hashmap"
  b_channels :: 'ch
  b_election_timeout_range :: "u64 \<times> u64"
  b_heartbeat_interval :: u64

definition builder_default ::
    "node_id \<Rightarrow> 's \<Rightarrow> u64 \<times> u64 \<Rightarrow> u64 \<Rightarrow> 'ch \<Rightarrow> ('s, 'ch) raft_node_builder" where
  "builder_default fresh_id state_default default_range default_interval channels_default =
     \<lparr>b_id = fresh_id, b_state = state_default, b_seeds = [], b_channels = channels_default,
      b_election_timeout_range = default_range, b_heartbeat_interval = default_interval\<rparr>"

definition builder_id :: "node_id \<Rightarrow> ('s, 'ch) raft_node_builder \<Rightarrow> ('s, 'ch) raft_node_builder" where
  "builder_id i b = b\<lparr>b_id := i\<rparr>"

definition builder_state :: "'s \<Rightarrow> ('s, 'ch) raft_node_builder \<Rightarrow> ('s, 'ch) raft_node_builder" where
  "builder_state s b = b\<lparr>b_state := s\<rparr>"

definition builder_seeds ::
    "(node_id, socket_addr) hashmap \<Rightarrow> ('s, 'ch) raft_node_builder \<Rightarrow> ('s, 'ch) raft_node_builder" where
  "builder_seeds m b = b\<lparr>b_seeds := m\<rparr>"

definition builder_election_timeout_range ::
    "u64 \<times> u64 \<Rightarrow> ('s, 'ch) raft_node_builder \<Rightarrow> ('s, 'ch) raft_node_builder" where
  "builder_election_timeout_range r b = b\<lparr>b_election_timeout_range := r\<rparr>"

definition builder_heartbeat_interval ::
    "u64 \<Rightarrow> ('s, 'ch) raft_node_builder \<Rightarrow> ('s, 'ch) raft_node_builder" where
  "builder_heartbeat_interval i b = b\<lparr>b_heartbeat_interval := i\<rparr>"

definition builder_channels ::
    "'r raft_channels \<Rightarrow> ('s, 'ch) raft_node_builder \<Rightarrow> ('s, 'r raft_channels) raft_node_builder" where
  "builder_channels ch b =
     \<lparr>b_id = b_id b, b_state = b_state b, b_seeds = b_seeds b, b_channels = ch,
      b_election_timeout_range = b_election_timeout_range b,
      b_heartbeat_interval = b_heartbeat_interval b\<rparr>"

text \<open>
  \<open>build\<close> as a computation on the store the builder owns: the term and the vote are loaded
  first, then the seeds become the membership if there is none yet.
\<close>

definition builder_build ::
    "('s, 'r) state_ops \<Rightarrow> ('s, 'r raft_channels) raft_node_builder \<Rightarrow> ('s, 'r) raft_node outcome" where
  "builder_build ops b =
     (let current_term = load_current_term ops (b_state b);
          voted_for = load_voted_for ops (b_state b);
          node = (\<lambda>s. \<lparr>nd_id = b_id b, nd_current_term = current_term, nd_voted_for = voted_for,
                        nd_state = s, nd_channels = b_channels b,
                        nd_current_state = Follower,
                        nd_election_timeout_range = b_election_timeout_range b,
                        nd_heartbeat_interval = b_heartbeat_interval b,
                        nd_leader_id = None, nd_last_heard_from_leader = None\<rparr>)
      in if get_membership ops (b_state b) = [] then
           fst (bind_c (set_initial_membership ops (b_seeds b)) (\<lambda>_. gets_c node) (b_state b))
         else Ok (node (b_state b)))"

section \<open>Properties\<close>

lemma build_fields:
  assumes "builder_build ops b = Ok n"
  shows "nd_id n = b_id b"
    "nd_current_term n = load_current_term ops (b_state b)"
    "nd_voted_for n = load_voted_for ops (b_state b)"
    "nd_current_state n = Follower" "nd_leader_id n = None"
    "nd_last_heard_from_leader n = None" "nd_channels n = b_channels b"
    "nd_election_timeout_range n = b_election_timeout_range b"
    "nd_heartbeat_interval n = b_heartbeat_interval b"
  using assms
  by (auto simp: builder_build_def bind_c_def gets_c_def Let_def
      split: if_splits prod.splits outcome.splits)

lemma build_state:
  assumes "builder_build ops b = Ok n"
  shows "if get_membership ops (b_state b) = []
         then set_initial_membership ops (b_seeds b) (b_state b) = (Ok (), nd_state n)
         else nd_state n = b_state b"
  using assms
  by (auto simp: builder_build_def bind_c_def gets_c_def Let_def
      split: if_splits prod.splits outcome.splits)

context raft_log
begin

lemma build_membership:
  assumes "builder_build ops b = Ok n"
  shows "get_membership ops (nd_state n) =
    (if get_membership ops (b_state b) = [] then b_seeds b else get_membership ops (b_state b))"
  using build_state [OF assms] membership_law by auto

end

end
