(* ===== verification/Common.thy ===== *)
theory Common
  imports Raft_Node Memory_State
begin

text \<open>
  \<open>src/role/common.rs\<close>: how every role answers a \<open>RequestVote\<close> and an \<open>AppendEntries\<close> RPC.

  Each handler sends exactly one response, as its last action. The value \<open>Ok r\<close> of the model
  means that \<open>r\<close> went out on the response channel and the Rust function returned \<open>Ok(())\<close>;
  every other outcome is the handler's own, with no response sent.
\<close>

section \<open>RequestVote\<close>

definition respond_to_request_vote ::
    "('s, 'r) state_ops \<Rightarrow> request_vote_request \<Rightarrow> receiver
       \<Rightarrow> ('s, 'r, request_vote_response) node_comp" where
  "respond_to_request_vote ops req response_tx n =
     (let our_term = nd_current_term n; our_id = nd_id n in
      if our_term = rv_term req \<and> nd_voted_for n \<noteq> None then
        (send_response response_tx
           \<lparr>rvr_term = our_term, rvr_vote_granted = False, rvr_id = our_id,
            rvr_reason = RvAlreadyVoted\<rparr>, n)
      else if rv_term req < our_term then
        (send_response response_tx
           \<lparr>rvr_term = our_term, rvr_vote_granted = False, rvr_id = our_id,
            rvr_reason = RvStaleTerm\<rparr>, n)
      else
        (then_c (update_current_term_and_voted_for ops (rv_term req) (rv_candidate_id req))
        (then_c (modify_c change_to_follower_state)
        (bind_c (gets_c (\<lambda>n. get_last_index ops (nd_state n))) (\<lambda>our_last_log_index.
         bind_c (gets_c (\<lambda>n. get_last_term ops (nd_state n))) (\<lambda>our_last_log_term.
         if rv_last_log_term req < our_last_log_term
            \<or> our_last_log_term = rv_last_log_term req
               \<and> rv_last_log_index req < our_last_log_index
         then lift_c (send_response response_tx
                \<lparr>rvr_term = our_term, rvr_vote_granted = False, rvr_id = our_id,
                 rvr_reason = RvIncompleteLog\<rparr>)
         else lift_c (send_response response_tx
                \<lparr>rvr_term = our_term, rvr_vote_granted = True, rvr_id = our_id,
                 rvr_reason = RvOk\<rparr>)))))) n)"

text \<open>The candidate's log is at least as complete as the voter's (the code tests the opposite).\<close>

definition log_up_to_date :: "('s, 'r) state_ops \<Rightarrow> 's \<Rightarrow> request_vote_request \<Rightarrow> bool" where
  "log_up_to_date ops s req \<longleftrightarrow>
     get_last_term ops s < rv_last_log_term req \<or>
     get_last_term ops s = rv_last_log_term req \<and> get_last_index ops s \<le> rv_last_log_index req"

section \<open>AppendEntries\<close>

definition respond_to_append_entries ::
    "('s, 'r) state_ops \<Rightarrow> instant \<Rightarrow> 'r append_entries_request \<Rightarrow> receiver
       \<Rightarrow> ('s, 'r, append_entries_response) node_comp" where
  "respond_to_append_entries ops now req response_tx n =
     (let leader_term = ae_term req;
          our_term = nd_current_term n;
          our_id = nd_id n;
          our_last_log_index = get_last_index ops (nd_state n);
          len = of_nat (length (ae_entries req));
          failure = (\<lambda>reason. \<lparr>aer_term = our_term, aer_success = False, aer_id = our_id,
                               aer_len = 0, aer_reason = reason\<rparr>)
      in if leader_term < our_term then (send_response response_tx (failure AeStaleTerm), n)
      else
        (then_c (update_current_term ops leader_term)
        (then_c (modify_c (update_last_heard_from_leader now))
        (then_c (modify_c (update_leader_id (ae_leader_id req)))
        (then_c (modify_c change_to_follower_state)
        (if our_last_log_index < ae_prev_log_index req
         then lift_c (send_response response_tx (failure AeLogMismatch))
         else
          bind_c (gets_c (\<lambda>n. get_entry ops (nd_state n) (ae_prev_log_index req))) (\<lambda>entry.
          if (case entry of None \<Rightarrow> False | Some e \<Rightarrow> le_term e \<noteq> ae_prev_log_term req)
          then lift_c (send_response response_tx (failure AeLogMismatch))
          else
            then_c (on_state (remove_entries_after ops (ae_prev_log_index req)))
           (then_c (on_state (append_entries ops (ae_entries req)))
           (bind_c (gets_c (\<lambda>n. get_last_index ops (nd_state n))) (\<lambda>our_last_log_index.
            then_c (on_state (set_last_commit_index ops
                       (min (ae_last_commit_index req) our_last_log_index)))
                   (lift_c (send_response response_tx
                      \<lparr>aer_term = our_term, aer_success = True, aer_id = our_id,
                       aer_len = len, aer_reason = AeOk\<rparr>))))))))))) n)"

section \<open>Lemmas: RequestVote\<close>

lemma log_up_to_date_code:
  "(rv_last_log_term req < get_last_term ops s \<or>
    get_last_term ops s = rv_last_log_term req \<and> rv_last_log_index req < get_last_index ops s)
   \<longleftrightarrow> \<not> log_up_to_date ops s req"
  by (auto simp: log_up_to_date_def)

text \<open>
  The position a log ends at, its last term before its last index: the order by which Raft calls
  one log more complete than another. It is linear, so of any nodes one has a most complete log.
\<close>

datatype log_position = Log_Position (lp_term: u64) (lp_index: u64)

instantiation log_position :: linorder
begin

definition less_eq_log_position :: "log_position \<Rightarrow> log_position \<Rightarrow> bool" where
  "less_eq_log_position p q \<longleftrightarrow> lp_term p < lp_term q \<or> lp_term p = lp_term q \<and> lp_index p \<le> lp_index q"

definition less_log_position :: "log_position \<Rightarrow> log_position \<Rightarrow> bool" where
  "less_log_position p q \<longleftrightarrow> lp_term p < lp_term q \<or> lp_term p = lp_term q \<and> lp_index p < lp_index q"

instance
proof
  fix p q r :: log_position
  show "p < q \<longleftrightarrow> p \<le> q \<and> \<not> q \<le> p"
    by (cases p; cases q) (auto simp: less_eq_log_position_def less_log_position_def not_less)
  show "p \<le> p" by (simp add: less_eq_log_position_def)
  show "p \<le> q \<Longrightarrow> q \<le> r \<Longrightarrow> p \<le> r"
    by (auto simp: less_eq_log_position_def intro: order.trans order.strict_trans)
  show "p \<le> q \<Longrightarrow> q \<le> p \<Longrightarrow> p = q"
    by (cases p; cases q) (auto simp: less_eq_log_position_def)
  show "p \<le> q \<or> q \<le> p" by (auto simp: less_eq_log_position_def)
qed

end

definition own_position :: "('s, 'r) state_ops \<Rightarrow> 's \<Rightarrow> log_position" where
  "own_position ops s = Log_Position (get_last_term ops s) (get_last_index ops s)"

definition request_position :: "request_vote_request \<Rightarrow> log_position" where
  "request_position req = Log_Position (rv_last_log_term req) (rv_last_log_index req)"

lemma log_up_to_date_position: "log_up_to_date ops s req \<longleftrightarrow> own_position ops s \<le> request_position req"
  by (simp add: log_up_to_date_def own_position_def request_position_def less_eq_log_position_def)

lemma request_position_of [simp]:
  "request_position (request_vote_request_of ops n) = own_position ops (nd_state n)"
  "request_position (req\<lparr>rv_term := t\<rparr>) = request_position req"
  by (simp_all add: request_position_def own_position_def request_vote_request_of_def)

text \<open>
  The shape of every answered vote request: refused with the node unchanged, or considered,
  with the term, the vote and the role changed whatever the verdict.
\<close>

lemma respond_to_request_voteE:
  assumes run: "respond_to_request_vote ops req tx n = (Ok r, n')"
  obtains
    (already_voted) "nd_current_term n = rv_term req" "nd_voted_for n \<noteq> None" "n' = n"
      "r = \<lparr>rvr_term = nd_current_term n, rvr_vote_granted = False, rvr_id = nd_id n,
            rvr_reason = RvAlreadyVoted\<rparr>"
  | (stale_term) "rv_term req < nd_current_term n" "n' = n"
      "r = \<lparr>rvr_term = nd_current_term n, rvr_vote_granted = False, rvr_id = nd_id n,
            rvr_reason = RvStaleTerm\<rparr>"
  | (considered) s1 s2 where "nd_current_term n \<le> rv_term req"
      "nd_current_term n = rv_term req \<Longrightarrow> nd_voted_for n = None"
      "store_current_term ops (rv_term req) (nd_state n) = (Ok (), s1)"
      "store_voted_for ops (rv_candidate_id req) s1 = (Ok (), s2)"
      "n' = n\<lparr>nd_state := s2, nd_current_term := rv_term req,
             nd_voted_for := Some (rv_candidate_id req), nd_current_state := Follower\<rparr>"
      "r = \<lparr>rvr_term = nd_current_term n, rvr_vote_granted = log_up_to_date ops s2 req,
            rvr_id = nd_id n,
            rvr_reason = (if log_up_to_date ops s2 req then RvOk else RvIncompleteLog)\<rparr>"
proof (cases "nd_current_term n = rv_term req \<and> nd_voted_for n \<noteq> None")
  case True
  with run show thesis
    by (intro already_voted) (auto simp: respond_to_request_vote_def Let_def)
next
  case not_voted: False
  show thesis
  proof (cases "rv_term req < nd_current_term n")
    case True
    with not_voted run show thesis
      by (intro stale_term) (auto simp: respond_to_request_vote_def Let_def)
  next
    case False
    then have le: "nd_current_term n \<le> rv_term req" by simp
    have fresh: "nd_current_term n = rv_term req \<Longrightarrow> nd_voted_for n = None"
      using not_voted by auto
    show thesis
      using not_voted False run unfolding respond_to_request_vote_def Let_def
      by (auto simp: then_c_eq_Ok bind_c_eq_Ok update_both_Ok modify_c_def gets_c_def lift_c_def
          change_to_follower_state_def log_up_to_date_code split: if_splits
          intro!: considered [OF le fresh])
  qed
qed

text \<open>A granted vote is the in-memory vote for the request's term, and was not there before.\<close>

lemma vote_granted_state:
  assumes run: "respond_to_request_vote ops req tx n = (Ok r, n')" and g: "rvr_vote_granted r"
  shows "nd_current_term n' = rv_term req" "nd_voted_for n' = Some (rv_candidate_id req)"
    "nd_current_state n' = Follower" "nd_current_term n \<le> rv_term req"
    "nd_current_term n = rv_term req \<Longrightarrow> nd_voted_for n = None"
  using run g by (auto elim!: respond_to_request_voteE)

text \<open>The term of every reply is the term the voter had when the request arrived.\<close>

lemma vote_reply_term:
  assumes "respond_to_request_vote ops req tx n = (Ok r, n')"
  shows "rvr_term r = nd_current_term n" "rvr_id r = nd_id n"
  using assms by (auto elim!: respond_to_request_voteE)

lemma vote_reply_reason:
  assumes "respond_to_request_vote ops req tx n = (Ok r, n')"
  shows "rvr_vote_granted r \<longleftrightarrow> rvr_reason r = RvOk"
    "rvr_reason r = RvStaleTerm \<Longrightarrow> rv_term req < rvr_term r"
    "rvr_reason r = RvIncompleteLog \<Longrightarrow> rvr_term r \<le> rv_term req"
    "rvr_reason r = RvAlreadyVoted \<Longrightarrow> rvr_term r = rv_term req"
  using assms by (auto elim!: respond_to_request_voteE split: if_splits)

context raft_log
begin

text \<open>With a lawful store the log that decides the vote is the log before the request.\<close>

lemma log_up_to_date_log:
  "log_up_to_date ops s req \<longleftrightarrow>
     last_log_term (log_of s) < rv_last_log_term req \<or>
     last_log_term (log_of s) = rv_last_log_term req \<and>
     last_log_index (log_of s) \<le> rv_last_log_index req"
  by (simp add: log_up_to_date_def last_index_law last_term_law)

lemma vote_store:
  assumes "store_current_term ops t s = (Ok (), s1)" "store_voted_for ops c s1 = (Ok (), s2)"
  shows "log_of s2 = log_of s" "load_current_term ops s2 = t" "load_voted_for ops s2 = Some c"
    "get_last_commit_index ops s2 = get_last_commit_index ops s"
    "get_membership ops s2 = get_membership ops s"
    "log_up_to_date ops s2 req = log_up_to_date ops s req"
  using store_term_law [OF assms(1)] store_vote_law [OF assms(2)] log_up_to_date_log by auto

text \<open>A refusal for an incomplete log means that the voter's log ends after the candidate's.\<close>

lemma vote_incomplete_log:
  assumes run: "respond_to_request_vote ops req tx n = (Ok r, n')" and "rvr_reason r = RvIncompleteLog"
  shows "request_position req < own_position ops (nd_state n)"
  using run
proof (cases rule: respond_to_request_voteE)
  case (considered s1 s2)
  with vote_store(6) [OF considered(3,4)] assms(2) show ?thesis
    by (auto simp: log_up_to_date_position not_le split: if_splits)
qed (use assms(2) in simp_all)

lemma vote_durable:
  assumes run: "respond_to_request_vote ops req tx n = (Ok r, n')" and g: "rvr_vote_granted r"
  shows "load_current_term ops (nd_state n') = rv_term req \<and>
    load_voted_for ops (nd_state n') = Some (rv_candidate_id req) \<and>
    log_of (nd_state n') = log_of (nd_state n) \<and>
    log_up_to_date ops (nd_state n) req"
  using run
proof (cases rule: respond_to_request_voteE)
  case (considered s1 s2)
  with vote_store [OF considered(3,4)] g show ?thesis by simp
qed (use g in simp_all)

text \<open>A vote request never touches the log, the commit index or the membership.\<close>

lemma vote_keeps_log:
  assumes run: "respond_to_request_vote ops req tx n = (Ok r, n')"
  shows "log_of (nd_state n') = log_of (nd_state n) \<and>
    get_last_commit_index ops (nd_state n') = get_last_commit_index ops (nd_state n) \<and>
    get_membership ops (nd_state n') = get_membership ops (nd_state n)"
  using run
proof (cases rule: respond_to_request_voteE)
  case (considered s1 s2)
  with vote_store [OF considered(3,4)] show ?thesis by simp
qed simp_all

end

context total_log
begin

text \<open>A store that never fails lets every vote request be answered, and fixes the decision.\<close>

lemma vote_answered:
  "\<exists>r n'. respond_to_request_vote ops req Alive n = (Ok r, n')"
proof -
  obtain s1 where s1: "store_current_term ops (rv_term req) (nd_state n) = (Ok (), s1)"
    by (rule store_term_runs)
  obtain s2 where s2: "store_voted_for ops (rv_candidate_id req) s1 = (Ok (), s2)"
    by (rule store_vote_runs)
  show ?thesis
    using s1 s2
    by (simp add: respond_to_request_vote_def Let_def update_current_term_and_voted_for_def
        on_state_run outcome_simps)
qed

lemma vote_decision:
  assumes run: "respond_to_request_vote ops req Alive n = (Ok r, n')"
  shows "rvr_vote_granted r \<longleftrightarrow>
    nd_current_term n \<le> rv_term req \<and>
    (nd_current_term n = rv_term req \<longrightarrow> nd_voted_for n = None) \<and>
    log_up_to_date ops (nd_state n) req"
  using run
proof (cases rule: respond_to_request_voteE)
  case (considered s1 s2)
  with vote_store(6) [OF considered(3,4)] show ?thesis by simp
qed auto

end

section \<open>Lemmas: AppendEntries\<close>

text \<open>The shape of every answered \<open>AppendEntries\<close>.\<close>

definition ae_failure ::
    "('s, 'r) raft_node \<Rightarrow> append_entries_response_reason \<Rightarrow> append_entries_response" where
  "ae_failure n reason =
     \<lparr>aer_term = nd_current_term n, aer_success = False, aer_id = nd_id n, aer_len = 0,
      aer_reason = reason\<rparr>"

definition ae_success ::
    "('s, 'r) raft_node \<Rightarrow> 'r append_entries_request \<Rightarrow> append_entries_response" where
  "ae_success n req =
     \<lparr>aer_term = nd_current_term n, aer_success = True, aer_id = nd_id n,
      aer_len = of_nat (length (ae_entries req)), aer_reason = AeOk\<rparr>"

text \<open>What an accepted leader's message does to the node before its entries are looked at.\<close>

definition follow_leader ::
    "instant \<Rightarrow> 'r append_entries_request \<Rightarrow> 's \<Rightarrow> ('s, 'r) raft_node \<Rightarrow> ('s, 'r) raft_node" where
  "follow_leader now req s n =
     n\<lparr>nd_state := s, nd_current_term := ae_term req, nd_current_state := Follower,
       nd_leader_id := Some (ae_leader_id req), nd_last_heard_from_leader := Some now\<rparr>"

lemma follow_leader_sel [simp]:
  "nd_id (follow_leader now req s n) = nd_id n"
  "nd_state (follow_leader now req s n) = s"
  "nd_current_term (follow_leader now req s n) = ae_term req"
  "nd_voted_for (follow_leader now req s n) = nd_voted_for n"
  "nd_current_state (follow_leader now req s n) = Follower"
  "nd_leader_id (follow_leader now req s n) = Some (ae_leader_id req)"
  "nd_last_heard_from_leader (follow_leader now req s n) = Some now"
  "nd_channels (follow_leader now req s n) = nd_channels n"
  by (simp_all add: follow_leader_def)

lemma follow_leader_upd [simp]:
  "(follow_leader now req s n)\<lparr>nd_state := s'\<rparr> = follow_leader now req s' n"
  by (simp add: follow_leader_def)

lemma accept_leader_Ok:
  "then_c (update_current_term ops (ae_term req))
     (then_c (modify_c (update_last_heard_from_leader now))
     (then_c (modify_c (update_leader_id (ae_leader_id req)))
     (then_c (modify_c change_to_follower_state) k))) n = (Ok r, n')
   \<longleftrightarrow> (\<exists>s. store_current_term ops (ae_term req) (nd_state n) = (Ok (), s)
            \<and> k (follow_leader now req s n) = (Ok r, n'))"
proof -
  have "n\<lparr>nd_state := s, nd_current_term := ae_term req, nd_last_heard_from_leader := Some now,
          nd_leader_id := Some (ae_leader_id req), nd_current_state := Follower\<rparr>
        = follow_leader now req s n" for s
    by (cases n) (simp add: follow_leader_def)
  then show ?thesis
    by (auto simp: then_c_eq_Ok update_current_term_Ok modify_c_def node_change_defs)
qed

lemma respond_to_append_entriesE:
  assumes run: "respond_to_append_entries ops now req tx n = (Ok r, n')"
  obtains
    (stale_term) "ae_term req < nd_current_term n" "n' = n" "r = ae_failure n AeStaleTerm"
  | (no_prev) s1 where "nd_current_term n \<le> ae_term req"
      "store_current_term ops (ae_term req) (nd_state n) = (Ok (), s1)"
      "get_last_index ops (nd_state n) < ae_prev_log_index req"
      "n' = follow_leader now req s1 n" "r = ae_failure n AeLogMismatch"
  | (conflict) s1 e where "nd_current_term n \<le> ae_term req"
      "store_current_term ops (ae_term req) (nd_state n) = (Ok (), s1)"
      "ae_prev_log_index req \<le> get_last_index ops (nd_state n)"
      "get_entry ops s1 (ae_prev_log_index req) = Some e" "le_term e \<noteq> ae_prev_log_term req"
      "n' = follow_leader now req s1 n" "r = ae_failure n AeLogMismatch"
  | (success) s1 s2 s3 s4 where "nd_current_term n \<le> ae_term req"
      "store_current_term ops (ae_term req) (nd_state n) = (Ok (), s1)"
      "ae_prev_log_index req \<le> get_last_index ops (nd_state n)"
      "\<And>e. get_entry ops s1 (ae_prev_log_index req) = Some e \<Longrightarrow> le_term e = ae_prev_log_term req"
      "remove_entries_after ops (ae_prev_log_index req) s1 = (Ok (), s2)"
      "append_entries ops (ae_entries req) s2 = (Ok (), s3)"
      "set_last_commit_index ops (min (ae_last_commit_index req) (get_last_index ops s3)) s3
         = (Ok (), s4)"
      "n' = follow_leader now req s4 n" "r = ae_success n req"
proof (cases "ae_term req < nd_current_term n")
  case True
  with run show thesis
    by (intro stale_term) (auto simp: respond_to_append_entries_def Let_def ae_failure_def)
next
  case False
  then have le: "nd_current_term n \<le> ae_term req" by simp
  show thesis
  proof (cases "get_last_index ops (nd_state n) < ae_prev_log_index req")
    case True
    with False run show thesis
      unfolding respond_to_append_entries_def Let_def
      by (auto simp: accept_leader_Ok lift_c_def ae_failure_def intro!: no_prev [OF le])
  next
    case prev: False
    then have prev': "ae_prev_log_index req \<le> get_last_index ops (nd_state n)" by simp
    define bad where "bad s \<longleftrightarrow> (case get_entry ops s (ae_prev_log_index req) of
        None \<Rightarrow> False | Some e \<Rightarrow> le_term e \<noteq> ae_prev_log_term req)" for s
    from prev False run obtain s1 where
      s1: "store_current_term ops (ae_term req) (nd_state n) = (Ok (), s1)" and
      rest: "(if bad s1
              then lift_c (send_response tx (ae_failure n AeLogMismatch))
              else
                then_c (on_state (remove_entries_after ops (ae_prev_log_index req)))
               (then_c (on_state (append_entries ops (ae_entries req)))
               (bind_c (gets_c (\<lambda>n. get_last_index ops (nd_state n))) (\<lambda>our_last_log_index.
                then_c (on_state (set_last_commit_index ops
                           (min (ae_last_commit_index req) our_last_log_index)))
                       (lift_c (send_response tx (ae_success n req)))))))
             (follow_leader now req s1 n) = (Ok r, n')"
      unfolding respond_to_append_entries_def Let_def ae_failure_def ae_success_def bad_def
      by (auto simp: accept_leader_Ok) (auto simp: bind_c_def gets_c_def)
    show thesis
    proof (cases "bad s1")
      case True
      with rest show thesis
        by (auto simp: bad_def lift_c_def split: option.splits
            intro: conflict [OF le s1 prev'])
    next
      case False
      with rest show thesis
        by (auto simp: bad_def then_c_eq_Ok bind_c_eq_Ok on_state_eq_Ok gets_c_def lift_c_def
            split: option.splits intro: success [OF le s1 prev'])
    qed
  qed
qed

lemma append_reply:
  assumes "respond_to_append_entries ops now req tx n = (Ok r, n')"
  shows "aer_term r = nd_current_term n" "aer_id r = nd_id n"
    "aer_success r \<longleftrightarrow> aer_reason r = AeOk"
    "aer_reason r = AeStaleTerm \<longleftrightarrow> ae_term req < nd_current_term n"
    "aer_reason r = AeStaleTerm \<Longrightarrow> n' = n"
    "aer_len r = (if aer_success r then of_nat (length (ae_entries req)) else 0)"
  using assms by (auto elim!: respond_to_append_entriesE simp: ae_failure_def ae_success_def)

text \<open>Every message of a leader whose term is not stale makes its receiver a follower of it.\<close>

lemma append_follows:
  assumes "respond_to_append_entries ops now req tx n = (Ok r, n')"
    and "nd_current_term n \<le> ae_term req"
  shows "nd_current_term n' = ae_term req" "nd_current_state n' = Follower"
    "nd_leader_id n' = Some (ae_leader_id req)" "nd_last_heard_from_leader n' = Some now"
    "nd_voted_for n' = nd_voted_for n"
  using assms by (auto elim!: respond_to_append_entriesE)

context raft_log
begin

lemma append_success:
  assumes run: "respond_to_append_entries ops now req tx n = (Ok r, n')" and ok: "aer_success r"
  shows "log_of (nd_state n') = take (unat (ae_prev_log_index req)) (log_of (nd_state n)) @ ae_entries req
    \<and> get_last_commit_index ops (nd_state n')
        = min (ae_last_commit_index req) (last_log_index (log_of (nd_state n')))
    \<and> nd_current_term n \<le> ae_term req
    \<and> ae_prev_log_index req \<le> last_log_index (log_of (nd_state n))
    \<and> (\<forall>e. entry_at base (log_of (nd_state n)) (ae_prev_log_index req) = Some e
          \<longrightarrow> le_term e = ae_prev_log_term req)"
  using run
proof (cases rule: respond_to_append_entriesE)
  case (success s1 s2 s3 s4)
  note laws = store_term_law [OF success(2)] remove_law [OF success(5)] append_law [OF success(6)]
    commit_law [OF success(7)]
  from laws success show ?thesis by (auto simp: get_entry_law last_index_law)
qed (use ok in \<open>simp_all add: ae_failure_def\<close>)

lemma append_failure:
  assumes run: "respond_to_append_entries ops now req tx n = (Ok r, n')" and ko: "\<not> aer_success r"
  shows "log_of (nd_state n') = log_of (nd_state n)
    \<and> get_last_commit_index ops (nd_state n') = get_last_commit_index ops (nd_state n)
    \<and> (aer_reason r = AeLogMismatch \<longrightarrow>
        last_log_index (log_of (nd_state n)) < ae_prev_log_index req \<or>
        (\<exists>e. entry_at base (log_of (nd_state n)) (ae_prev_log_index req) = Some e
              \<and> le_term e \<noteq> ae_prev_log_term req))"
  using run
proof (cases rule: respond_to_append_entriesE)
  case (no_prev s1)
  with store_term_law [OF no_prev(2)] show ?thesis by (auto simp: last_index_law)
next
  case (conflict s1 e)
  with store_term_law [OF conflict(2)] show ?thesis by (auto simp: get_entry_law)
next
  case success
  with ko show ?thesis by (simp add: ae_success_def)
qed (simp add: ae_failure_def)

end

text \<open>When a request is accepted, over the log.\<close>

definition accepts_append ::
    "nat \<Rightarrow> 'r log_entry list \<Rightarrow> ('s, 'r) raft_node \<Rightarrow> 'r append_entries_request \<Rightarrow> bool" where
  "accepts_append base es n req \<longleftrightarrow>
     nd_current_term n \<le> ae_term req \<and>
     ae_prev_log_index req \<le> last_log_index es \<and>
     (case entry_at base es (ae_prev_log_index req) of
        None \<Rightarrow> True | Some e \<Rightarrow> le_term e = ae_prev_log_term req)"

context raft_log
begin

lemma append_accepted_iff:
  assumes run: "respond_to_append_entries ops now req tx n = (Ok r, n')"
  shows "aer_success r \<longleftrightarrow> accepts_append base (log_of (nd_state n)) n req"
proof (cases "aer_success r")
  case True
  with append_success [OF run] show ?thesis
    by (auto simp: accepts_append_def split: option.split)
next
  case False
  from run show ?thesis
  proof (cases rule: respond_to_append_entriesE)
    case (conflict s1 e)
    with False store_term_law [OF conflict(2)] show ?thesis
      by (auto simp: accepts_append_def get_entry_law)
  next
    case success
    with False show ?thesis by (simp add: ae_success_def)
  qed (use False in \<open>auto simp: accepts_append_def last_index_law\<close>)
qed

end

context total_log
begin

lemma append_answered:
  "\<exists>r n'. respond_to_append_entries ops now req Alive n = (Ok r, n')"
proof -
  obtain s1 where s1: "store_current_term ops (ae_term req) (nd_state n) = (Ok (), s1)"
    by (rule store_term_runs)
  obtain s2 where s2: "remove_entries_after ops (ae_prev_log_index req) s1 = (Ok (), s2)"
    by (rule remove_runs)
  obtain s3 where s3: "append_entries ops (ae_entries req) s2 = (Ok (), s3)"
    by (rule append_runs)
  obtain s4 where s4: "set_last_commit_index ops
      (min (ae_last_commit_index req) (get_last_index ops s3)) s3 = (Ok (), s4)"
    by (rule commit_runs)
  show ?thesis
    using s1 s2 s3 s4
    by (simp add: respond_to_append_entries_def Let_def update_current_term_def on_state_run
        outcome_simps node_change_defs bind_c_def)
qed

end

section \<open>Terms never go back in a handler\<close>

text \<open>
  However a handler ends - answered, failed in the store, or with the response channel gone -
  the node's term is what it was or the request's, and it does not drop.
\<close>

lemma vote_handler_term:
  "term_moves_to (rv_term req) n (snd (respond_to_request_vote ops req tx n))"
  "rv_term req < nd_current_term n \<Longrightarrow> snd (respond_to_request_vote ops req tx n) = n"
proof -
  have refl: "term_moves_to (rv_term req) n n" by (simp add: term_moves_to_def)
  show "term_moves_to (rv_term req) n (snd (respond_to_request_vote ops req tx n))"
    unfolding respond_to_request_vote_def Let_def
    by (simp add: refl) (intro impI term_moves_to_at guarantee_intros)
  show "rv_term req < nd_current_term n \<Longrightarrow> snd (respond_to_request_vote ops req tx n) = n"
    by (auto simp: respond_to_request_vote_def Let_def)
qed

lemma append_handler_term:
  "term_moves_to (ae_term req) n (snd (respond_to_append_entries ops now req tx n))"
  "ae_term req < nd_current_term n \<Longrightarrow> snd (respond_to_append_entries ops now req tx n) = n"
proof -
  have refl: "term_moves_to (ae_term req) n n" by (simp add: term_moves_to_def)
  show "term_moves_to (ae_term req) n (snd (respond_to_append_entries ops now req tx n))"
    unfolding respond_to_append_entries_def Let_def
    by (simp add: refl) (intro impI conjI term_moves_to_at guarantee_intros)
  show "ae_term req < nd_current_term n \<Longrightarrow> snd (respond_to_append_entries ops now req tx n) = n"
    by (simp add: respond_to_append_entries_def Let_def)
qed

lemma handler_term_mono:
  "nd_current_term n \<le> nd_current_term (snd (respond_to_request_vote ops req tx n))"
  "nd_current_term n \<le> nd_current_term (snd (respond_to_append_entries ops now areq tx n))"
proof -
  show "nd_current_term n \<le> nd_current_term (snd (respond_to_request_vote ops req tx n))"
    using vote_handler_term [of req n ops tx]
    by (cases "rv_term req < nd_current_term n") (auto simp: term_moves_to_def)
  show "nd_current_term n \<le> nd_current_term (snd (respond_to_append_entries ops now areq tx n))"
    using append_handler_term [of areq n ops now tx]
    by (cases "ae_term areq < nd_current_term n") (auto simp: term_moves_to_def)
qed

lemma handlers_frame [guarantee_intros]:
  "guarantees (node_frame L D K) (respond_to_request_vote ops req tx)"
  "guarantees (node_frame L D K) (respond_to_append_entries ops now areq tx)"
proof -
  show "guarantees (node_frame L D K) (respond_to_request_vote ops req tx)"
    unfolding respond_to_request_vote_def Let_def
    by (rule guaranteesI)
      (simp, intro impI step_down_then [where t = "rv_term req" and c = "rv_candidate_id req" and ops = ops]
        guarantee_intros, simp_all)
  have swap: "then_c (modify_c (update_last_heard_from_leader now))
      (then_c (modify_c (update_leader_id l)) (then_c (modify_c change_to_follower_state) k)) =
    then_c (modify_c change_to_follower_state) (then_c (modify_c (update_last_heard_from_leader now))
      (then_c (modify_c (update_leader_id l)) k))" for l and k :: "('a, 'b, 'c) node_comp"
    by (rule ext, case_tac x) (simp add: outcome_simps bind_c_def node_change_defs)
  show "guarantees (node_frame L D K) (respond_to_append_entries ops now areq tx)"
    unfolding respond_to_append_entries_def Let_def swap
    by (rule guaranteesI)
      (simp, intro impI conjI step_down_then [where t = "ae_term areq" and ops = ops] guarantee_intros,
        simp_all)
qed

end
