(* ===== verification/Quorum.thy ===== *)
theory Quorum
  imports Prelude
begin

text \<open>
  Quorums: sets of nodes of which any two have a member in common. A candidate relies on it (two
  winners of one term would share a voter) and so does a leader that commits (the next leader's
  voters hold a committed entry). The locale is the interface; the counting rules of the code
  are its interpretations, in the theories that model them.
\<close>

locale quorum_system =
  fixes is_quorum :: "'a set \<Rightarrow> bool"
  assumes overlap_law: "is_quorum Q \<Longrightarrow> is_quorum Q' \<Longrightarrow> Q \<inter> Q' \<noteq> {}"
begin

lemma common_member:
  assumes "is_quorum Q" and "is_quorum Q'"
  obtains v where "v \<in> Q" "v \<in> Q'"
  using overlap_law [OF assms] by blast

text \<open>Where every member makes one choice, two unanimous quorums make the same one.\<close>

lemma one_choice:
  assumes "is_quorum Q" and "is_quorum Q'"
    and "\<And>v. v \<in> Q \<Longrightarrow> choice v = Some c" and "\<And>v. v \<in> Q' \<Longrightarrow> choice v = Some c'"
  shows "c = c'"
  using assms by (metis common_member option.inject)

end

text \<open>Two subsets of a finite set that together outnumber it meet.\<close>

lemma card_overlap:
  assumes "finite M" "V \<subseteq> M" "W \<subseteq> M" "card M < card V + card W"
  shows "V \<inter> W \<noteq> {}"
proof
  assume "V \<inter> W = {}"
  with assms have "card (V \<union> W) = card V + card W"
    by (meson card_Un_disjoint finite_subset)
  moreover have "card (V \<union> W) \<le> card M" using assms by (intro card_mono) auto
  ultimately show False using assms(4) by simp
qed

end
