(* ===== verification/Vote_Session.thy ===== *)
theory Vote_Session
  imports Common Quorum
begin

text \<open>
  The vote session of a candidate (\<open>VoteSession\<close> of \<open>src/role/role_candidate.rs\<close>): what it
  counts, how it asks its peers and how it handles each of their answers. The session shares
  its node with every other task; the record holds that one node.

  A \<open>request_votes\<close> task reads its answers from a channel of its own until a timer cuts it off
  or every sender is gone; the answers it gets to see, in order, are the argument \<open>replies\<close>.
  \<open>granted_votes\<close> is a \<open>usize\<close> that counts answers received, far from its bound, as a \<open>nat\<close>.
\<close>

datatype vote_result = NoPeers | Granted

record ('s, 'r) vote_session =
  vs_ack_peers :: "node_id set"
  vs_node :: "('s, 'r) raft_node"
  vs_vote_result :: "vote_result channel"
  vs_granted_votes :: nat

type_synonym ('s, 'r, 'a) vote_comp = "(('s, 'r) vote_session, 'a) comp"

definition on_vs_node :: "('s, 'r, 'a) node_comp \<Rightarrow> ('s, 'r, 'a) vote_comp" where
  "on_vs_node m = zoom_c vs_node (\<lambda>n s. s\<lparr>vs_node := n\<rparr>) m"

definition on_vote_result :: "(vote_result channel, 'a) comp \<Rightarrow> ('s, 'r, 'a) vote_comp" where
  "on_vote_result m = zoom_c vs_vote_result (\<lambda>ch s. s\<lparr>vs_vote_result := ch\<rparr>) m"

section \<open>Operations\<close>

definition vote_session_initialize :: "('s, 'r) raft_node \<Rightarrow> ('s, 'r) vote_session" where
  "vote_session_initialize n =
     \<lparr>vs_ack_peers = {}, vs_node = vote_for_self (increment_term n),
      vs_vote_result = bounded_channel 1, vs_granted_votes = 1\<rparr>"

definition other_members :: "('s, 'r) state_ops \<Rightarrow> ('s, 'r) raft_node \<Rightarrow> node_id set" where
  "other_members ops n = {i \<in> fst ` set (get_membership ops (nd_state n)). i \<noteq> nd_id n}"

definition get_unack_peers :: "('s, 'r) state_ops \<Rightarrow> ('s, 'r, node_id set option) vote_comp" where
  "get_unack_peers ops s =
     (let peers = other_members ops (vs_node s) in
      if peers = {} then
        then_c (on_vote_result (channel_send NoPeers)) (return_c None) s
      else
        (let unack_peers = peers - vs_ack_peers s in
         if unack_peers = {} then (Ok None, s) else (Ok (Some unack_peers), s)))"

text \<open>
  \<open>send_to_peers\<close> spawns one task per peer; a task that fails only ends itself. The order in
  which a \<open>HashSet\<close> is walked and the tasks run is the order of the list.
\<close>

fun send_to_peers :: "('s, 'r) state_ops \<Rightarrow> node_id list \<Rightarrow> ('s, 'r) vote_session \<Rightarrow> ('s, 'r) vote_session" where
  "send_to_peers ops [] s = s"
| "send_to_peers ops (p # ps) s =
     send_to_peers ops ps (s\<lparr>vs_node := snd (emit_request_vote ops p (vs_node s))\<rparr>)"

datatype loop_control = Continue | Break | Return

text \<open>One turn of the loop that waits for the answers. \<open>peers_len\<close> is the size of the membership.\<close>

definition on_vote_response ::
    "('s, 'r) state_ops \<Rightarrow> nat \<Rightarrow> request_vote_response \<Rightarrow> ('s, 'r, loop_control) vote_comp" where
  "on_vote_response ops peers_len response =
     (if rvr_reason response = RvStaleTerm \<or> rvr_reason response = RvIncompleteLog then
        then_c (on_vs_node (update_current_term ops (rvr_term response)))
       (then_c (on_vs_node (modify_c change_to_follower_state))
        (return_c Break))
      else
        then_c (modify_c (\<lambda>s. s\<lparr>vs_ack_peers := insert (rvr_id response) (vs_ack_peers s)\<rparr>))
        (if \<not> rvr_vote_granted response then return_c Continue
         else
           then_c (modify_c (\<lambda>s. s\<lparr>vs_granted_votes := vs_granted_votes s + 1\<rparr>))
          (bind_c (gets_c vs_granted_votes) (\<lambda>granted_votes.
             let cluster_size = peers_len + 1 in
             if cluster_size div 2 < granted_votes then
               then_c (on_vote_result (channel_send Granted)) (return_c Return)
             else return_c Continue))))"

fun vote_loop ::
    "('s, 'r) state_ops \<Rightarrow> nat \<Rightarrow> request_vote_response list \<Rightarrow> ('s, 'r, unit) vote_comp" where
  "vote_loop ops peers_len [] = return_c ()"
| "vote_loop ops peers_len (response # replies) =
     bind_c (on_vote_response ops peers_len response) (\<lambda>control.
       case control of Continue \<Rightarrow> vote_loop ops peers_len replies | _ \<Rightarrow> return_c ())"

text \<open>
  The task of \<open>request_votes\<close>. \<open>order\<close> lists the peers that have not acknowledged in the order
  the code happens to ask them.
\<close>

definition request_votes ::
    "('s, 'r) state_ops \<Rightarrow> (node_id set \<Rightarrow> node_id list) \<Rightarrow> request_vote_response list
       \<Rightarrow> ('s, 'r, unit) vote_comp" where
  "request_votes ops order replies =
     bind_c (gets_c (\<lambda>s. length (get_membership ops (nd_state (vs_node s))))) (\<lambda>peers_len.
     bind_c (get_unack_peers ops) (\<lambda>unack.
       case unack of
         None \<Rightarrow> return_c ()
       | Some unack_peers \<Rightarrow>
           then_c (modify_c (send_to_peers ops (order unack_peers)))
                  (vote_loop ops peers_len replies)))"

text \<open>
  \<open>timeouts\<close> cuts a future off at the earlier of the two deadlines. Both remaining times are
  computed when the future is wrapped, the retry timer's first.
\<close>

definition timeouts :: "instant \<Rightarrow> timeout \<Rightarrow> timeout \<Rightarrow> instant outcome" where
  "timeouts now retry election =
     (case get_remaining now retry of
        Ok r \<Rightarrow> map_outcome (\<lambda>e. now + min r e) (get_remaining now election)
      | Err e \<Rightarrow> Err e | Panicked p \<Rightarrow> Panicked p | Blocked \<Rightarrow> Blocked)"

section \<open>Lemmas\<close>

definition steps_down :: "request_vote_response \<Rightarrow> bool" where
  "steps_down response \<longleftrightarrow> rvr_reason response = RvStaleTerm \<or> rvr_reason response = RvIncompleteLog"

lemma on_vs_node_eq_Ok:
  "on_vs_node m s = (Ok a, s') \<longleftrightarrow> (\<exists>n. m (vs_node s) = (Ok a, n) \<and> s' = s\<lparr>vs_node := n\<rparr>)"
  by (auto simp: on_vs_node_def zoom_c_def split: prod.splits)

lemma on_vote_result_eq_Ok:
  "on_vote_result m s = (Ok a, s') \<longleftrightarrow>
     (\<exists>ch. m (vs_vote_result s) = (Ok a, ch) \<and> s' = s\<lparr>vs_vote_result := ch\<rparr>)"
  by (auto simp: on_vote_result_def zoom_c_def split: prod.splits)

text \<open>Every answer handled without an error, by case.\<close>

lemma on_vote_responseE:
  assumes run: "on_vote_response ops m response s = (Ok c, s')"
  obtains
    (step_down) st where "steps_down response"
      "store_current_term ops (rvr_term response) (nd_state (vs_node s)) = (Ok (), st)"
      "s' = s\<lparr>vs_node := (vs_node s)\<lparr>nd_state := st, nd_current_term := rvr_term response,
                                       nd_current_state := Follower\<rparr>\<rparr>" "c = Break"
  | (no_vote) "\<not> steps_down response" "\<not> rvr_vote_granted response"
      "s' = s\<lparr>vs_ack_peers := insert (rvr_id response) (vs_ack_peers s)\<rparr>" "c = Continue"
  | (vote) "\<not> steps_down response" "rvr_vote_granted response"
      "vs_granted_votes s + 1 \<le> (m + 1) div 2"
      "s' = s\<lparr>vs_ack_peers := insert (rvr_id response) (vs_ack_peers s),
             vs_granted_votes := vs_granted_votes s + 1\<rparr>" "c = Continue"
  | (win) ch where "\<not> steps_down response" "rvr_vote_granted response"
      "(m + 1) div 2 < vs_granted_votes s + 1"
      "channel_send Granted (vs_vote_result s) = (Ok (), ch)"
      "s' = s\<lparr>vs_ack_peers := insert (rvr_id response) (vs_ack_peers s),
             vs_granted_votes := vs_granted_votes s + 1, vs_vote_result := ch\<rparr>" "c = Return"
proof (cases "steps_down response")
  case True
  with run show thesis
    by (auto simp: on_vote_response_def steps_down_def then_c_eq_Ok on_vs_node_eq_Ok
        update_current_term_Ok modify_c_def return_c_def change_to_follower_state_def
        intro!: step_down)
next
  case down: False
  show thesis
  proof (cases "rvr_vote_granted response")
    case False
    with down run show thesis
      by (auto simp: on_vote_response_def steps_down_def then_c_eq_Ok modify_c_def return_c_def
          intro!: no_vote)
  next
    case granted: True
    show thesis
    proof (cases "(m + 1) div 2 < vs_granted_votes s + 1")
      case True
      with down granted run show thesis
        by (auto simp: on_vote_response_def steps_down_def then_c_eq_Ok bind_c_eq_Ok gets_c_def
            on_vote_result_eq_Ok modify_c_def return_c_def intro!: win)
    next
      case False
      with down granted run show thesis
        by (auto simp: on_vote_response_def steps_down_def then_c_eq_Ok bind_c_eq_Ok gets_c_def
            modify_c_def return_c_def intro!: vote)
    qed
  qed
qed

lemma initialize_fields [simp]:
  "vs_granted_votes (vote_session_initialize n) = 1"
  "vs_ack_peers (vote_session_initialize n) = {}"
  "nd_id (vs_node (vote_session_initialize n)) = nd_id n"
  "nd_current_term (vs_node (vote_session_initialize n)) = nd_current_term n + 1"
  "nd_voted_for (vs_node (vote_session_initialize n)) = Some (nd_id n)"
  "nd_state (vs_node (vote_session_initialize n)) = nd_state n"
  "nd_current_state (vs_node (vote_session_initialize n)) = nd_current_state n"
  "ch_queue (vs_vote_result (vote_session_initialize n)) = []"
  by (simp_all add: vote_session_initialize_def node_change_defs bounded_channel_def)

section \<open>Counting the votes\<close>

definition granters :: "request_vote_response list \<Rightarrow> node_id list" where
  "granters replies = map rvr_id (filter rvr_vote_granted replies)"

lemma granters_simps [simp]:
  "granters [] = []"
  "granters (r # rs) = (if rvr_vote_granted r then rvr_id r # granters rs else granters rs)"
  by (simp_all add: granters_def)

lemma distinct_granters: "distinct (map rvr_id replies) \<Longrightarrow> distinct (granters replies)"
  by (induction replies) (auto simp: granters_def)

lemma set_granters: "set (granters replies) \<subseteq> rvr_id ` set replies"
  by (auto simp: granters_def)

text \<open>
  The loop counts each granted answer it reads once, and announces the win when, and only when,
  the count passes half of \<open>peers_len + 1\<close>.
\<close>

lemma vote_loop_tally:
  assumes "vote_loop ops m replies s = (Ok (), s')"
  shows "\<exists>read rest. replies = read @ rest \<and>
    vs_granted_votes s' = vs_granted_votes s + length (granters read) \<and>
    (ch_queue (vs_vote_result s') = ch_queue (vs_vote_result s) \<or>
     ch_queue (vs_vote_result s') = ch_queue (vs_vote_result s) @ [Granted] \<and>
     (m + 1) div 2 < vs_granted_votes s')"
  using assms
proof (induction replies arbitrary: s)
  case Nil
  then show ?case by (simp add: return_c_def)
next
  case (Cons r rs)
  then obtain c s1 where step: "on_vote_response ops m r s = (Ok c, s1)"
    and rest: "(case c of Continue \<Rightarrow> vote_loop ops m rs | _ \<Rightarrow> return_c ()) s1 = (Ok (), s')"
    by (auto simp: bind_c_eq_Ok)
  from step show ?case
  proof (cases rule: on_vote_responseE)
    case (step_down st)
    with rest show ?thesis
      by (intro exI [of _ "[]"] exI [of _ "r # rs"]) (auto simp: return_c_def)
  next
    case no_vote
    with rest have "vote_loop ops m rs s1 = (Ok (), s')" by simp
    from Cons.IH [OF this] obtain read rest where IH: "rs = read @ rest"
      "vs_granted_votes s' = vs_granted_votes s1 + length (granters read)"
      "ch_queue (vs_vote_result s') = ch_queue (vs_vote_result s1) \<or>
       ch_queue (vs_vote_result s') = ch_queue (vs_vote_result s1) @ [Granted] \<and>
       (m + 1) div 2 < vs_granted_votes s'"
      by blast
    with no_vote show ?thesis
      by (intro exI [of _ "r # read"] exI [of _ rest]) simp
  next
    case vote
    with rest have "vote_loop ops m rs s1 = (Ok (), s')" by simp
    from Cons.IH [OF this] obtain read rest where IH: "rs = read @ rest"
      "vs_granted_votes s' = vs_granted_votes s1 + length (granters read)"
      "ch_queue (vs_vote_result s') = ch_queue (vs_vote_result s1) \<or>
       ch_queue (vs_vote_result s') = ch_queue (vs_vote_result s1) @ [Granted] \<and>
       (m + 1) div 2 < vs_granted_votes s'"
      by blast
    with vote show ?thesis
      by (intro exI [of _ "r # read"] exI [of _ rest]) simp
  next
    case (win ch)
    with rest have "s' = s1" by (simp add: return_c_def)
    with win show ?thesis
      by (intro exI [of _ "[r]"] exI [of _ rs]) (auto simp: channel_send_Ok)
  qed
qed

text \<open>
  With no answer that makes the candidate step down and room on the result channel, the loop
  returns, and it announces the win exactly when the votes suffice.
\<close>

lemma vote_loop_wins_iff:
  assumes "\<forall>r \<in> set replies. \<not> steps_down r"
    and "ch_receiver (vs_vote_result s) = Alive" and "\<not> channel_full (vs_vote_result s)"
  shows "\<exists>s'. vote_loop ops m replies s = (Ok (), s') \<and>
    (ch_queue (vs_vote_result s') =
       (if granters replies \<noteq> [] \<and> (m + 1) div 2 < vs_granted_votes s + length (granters replies)
        then ch_queue (vs_vote_result s) @ [Granted] else ch_queue (vs_vote_result s)))"
  using assms
proof (induction replies arbitrary: s)
  case Nil
  then show ?case by (simp add: return_c_def)
next
  case (Cons r rs)
  let ?s1 = "s\<lparr>vs_ack_peers := insert (rvr_id r) (vs_ack_peers s)\<rparr>"
  let ?s2 = "?s1\<lparr>vs_granted_votes := vs_granted_votes s + 1\<rparr>"
  have keep: "rvr_reason r \<noteq> RvStaleTerm" "rvr_reason r \<noteq> RvIncompleteLog"
    using Cons.prems(1) by (auto simp: steps_down_def)
  have down: "\<forall>r \<in> set rs. \<not> steps_down r" using Cons.prems(1) by simp
  show ?case
  proof (cases "rvr_vote_granted r")
    case False
    with keep have "on_vote_response ops m r s = (Ok Continue, ?s1)"
      by (simp add: on_vote_response_def outcome_simps)
    with Cons.IH [of ?s1] down Cons.prems False show ?thesis
      by (auto simp: outcome_simps split: if_splits)
  next
    case granted: True
    show ?thesis
    proof (cases "(m + 1) div 2 < vs_granted_votes s + 1")
      case True
      with keep granted Cons.prems have "on_vote_response ops m r s =
          (Ok Return, ?s2\<lparr>vs_vote_result := (vs_vote_result s)
             \<lparr>ch_queue := ch_queue (vs_vote_result s) @ [Granted]\<rparr>\<rparr>)"
        by (simp add: on_vote_response_def outcome_simps on_vote_result_def channel_send_def)
      with granted True show ?thesis by (simp add: outcome_simps)
    next
      case False
      with keep granted have "on_vote_response ops m r s = (Ok Continue, ?s2)"
        by (simp add: on_vote_response_def outcome_simps)
      with Cons.IH [of ?s2] down Cons.prems granted False show ?thesis
        by (cases "granters rs") (auto simp: outcome_simps)
    qed
  qed
qed

text \<open>A loop that ended without a step-down and without a win has read and counted every answer.\<close>

lemma vote_loop_all_read:
  assumes "\<forall>r \<in> set replies. \<not> steps_down r"
    and "vote_loop ops m replies s = (Ok (), s')"
    and "ch_queue (vs_vote_result s') = ch_queue (vs_vote_result s)"
  shows "vs_granted_votes s' = vs_granted_votes s + length (granters replies)"
  using assms
proof (induction replies arbitrary: s)
  case (Cons r rs)
  then obtain c s1 where step: "on_vote_response ops m r s = (Ok c, s1)"
    and rest: "(case c of Continue \<Rightarrow> vote_loop ops m rs | _ \<Rightarrow> return_c ()) s1 = (Ok (), s')"
    by (auto simp: bind_c_eq_Ok)
  from step show ?case
  proof (cases rule: on_vote_responseE)
    case (win ch)
    with rest have "ch_queue (vs_vote_result s') = ch_queue (vs_vote_result s) @ [Granted]"
      by (auto simp: return_c_def channel_send_Ok)
    with Cons.prems(3) show ?thesis by simp
  qed (use rest Cons in auto)
qed (simp add: return_c_def)

section \<open>Winning means having a quorum\<close>

text \<open>
  The set of nodes a winner counted, over the members \<open>M\<close> of its cluster: more than half of
  \<open>card M + 1\<close>, because the code adds one to a membership that already holds the node itself.
\<close>

definition vote_quorum :: "node_id set \<Rightarrow> node_id set \<Rightarrow> bool" where
  "vote_quorum M V \<longleftrightarrow> finite M \<and> V \<subseteq> M \<and> (card M + 1) div 2 < card V"

interpretation votes: quorum_system "vote_quorum M" for M
proof
  fix Q Q' assume "vote_quorum M Q" "vote_quorum M Q'"
  then show "Q \<inter> Q' \<noteq> {}"
    by (intro card_overlap [of M]) (auto simp: vote_quorum_def)
qed

text \<open>A session's electorate: the other members answered, each at most once.\<close>

definition fair_replies ::
    "('s, 'r) state_ops \<Rightarrow> ('s, 'r) raft_node \<Rightarrow> request_vote_response list \<Rightarrow> bool" where
  "fair_replies ops n replies \<longleftrightarrow>
     is_hashmap (get_membership ops (nd_state n)) \<and>
     nd_id n \<in> fst ` set (get_membership ops (nd_state n)) \<and>
     rvr_id ` set replies \<subseteq> other_members ops n \<and> distinct (map rvr_id replies)"

definition member_ids :: "('s, 'r) state_ops \<Rightarrow> ('s, 'r) raft_node \<Rightarrow> node_id set" where
  "member_ids ops n = fst ` set (get_membership ops (nd_state n))"

definition announced_win :: "('s, 'r) vote_session \<Rightarrow> bool" where
  "announced_win s \<longleftrightarrow> Granted \<in> set (ch_queue (vs_vote_result s))"

lemma won_session_quorum:
  assumes fair: "fair_replies ops n replies"
    and run: "vote_loop ops (length (get_membership ops (nd_state n))) replies
      (vote_session_initialize n) = (Ok (), s')"
    and won: "announced_win s'"
  shows "vote_quorum (member_ids ops n) (insert (nd_id n) (set (granters replies)))"
proof -
  let ?m = "length (get_membership ops (nd_state n))"
  from vote_loop_tally [OF run] won obtain read rest where split: "replies = read @ rest"
    and "vs_granted_votes s' = 1 + length (granters read)" "(?m + 1) div 2 < vs_granted_votes s'"
    by (auto simp: announced_win_def)
  then have enough: "(?m + 1) div 2 < 1 + length (granters replies)"
    by (simp add: granters_def)
  have dist: "distinct (granters replies)"
    using fair by (simp add: fair_replies_def distinct_granters)
  have sub: "set (granters replies) \<subseteq> other_members ops n"
    using fair set_granters [of replies] by (auto simp: fair_replies_def)
  then have own: "nd_id n \<notin> set (granters replies)" by (auto simp: other_members_def)
  have M: "card (member_ids ops n) = ?m"
    using fair distinct_card [of "map fst (get_membership ops (nd_state n))"]
    by (simp add: member_ids_def fair_replies_def is_hashmap_def)
  have "card (insert (nd_id n) (set (granters replies))) = 1 + length (granters replies)"
    using own distinct_card [OF dist] by simp
  with enough M sub fair show ?thesis
    by (auto simp: vote_quorum_def member_ids_def fair_replies_def other_members_def)
qed

section \<open>The frame of a vote session\<close>

lemma vs_frame_lift [guarantee_intros]:
  "guarantees (node_frame L D K) m \<Longrightarrow> guarantees (via vs_node (node_frame L D K)) (on_vs_node m)"
  "guarantees (via vs_node (node_frame L D K)) (on_vote_result k)"
  unfolding on_vs_node_def on_vote_result_def
  by (rule guarantees_zoom, assumption, simp)
    (rule guarantees_zoom_frame, rule node_frame_preorder, simp)

lemma vs_frame_modify [guarantee_intros]:
  "guarantees (via vs_node (node_frame L D K)) (modify_c (\<lambda>s. s\<lparr>vs_ack_peers := f s\<rparr>))"
  "guarantees (via vs_node (node_frame L D K)) (modify_c (\<lambda>s. s\<lparr>vs_granted_votes := g s\<rparr>))"
  by (auto intro!: guarantees_modify simp: via_def)

lemma vs_frame_response:
  "node_frame L (steps_down response \<and> rvr_term response < nd_current_term (vs_node s)) K
     (vs_node s) (vs_node (snd (on_vote_response ops m response s)))"
proof (cases "steps_down response")
  case False
  then have "guarantees (via vs_node (node_frame L D K)) (on_vote_response ops m response)" for D
    unfolding on_vote_response_def steps_down_def Let_def
    by (subst if_not_P, assumption) (intro guarantee_intros)
  from guarantees_at [OF this, of False s] show ?thesis
    by (auto simp: via_def intro: node_frame_weaken)
next
  case True
  let ?up = "update_current_term ops (rvr_term response)"
  obtain r n1 where run: "?up (vs_node s) = (r, n1)" by force
  have "vs_node (snd (on_vote_response ops m response s)) =
      (if is_ok r then change_to_follower_state n1 else n1)"
    using True run by (cases r) (simp_all add: on_vote_response_def steps_down_def on_vs_node_def
        outcome_simps bind_c_def)
  with step_down_frame [OF disjI1 [OF refl] run, of L K] True show ?thesis by simp
qed

lemma vs_frame_ask: "node_frame L D K (vs_node s) (vs_node (send_to_peers ops ps s))"
proof (induction ps arbitrary: s)
  case (Cons p ps)
  have "node_frame L D K (vs_node s) (snd (emit_request_vote ops p (vs_node s)))"
    by (rule guarantees_at [OF node_frame_emit(1)])
  with Cons.IH [of "s\<lparr>vs_node := snd (emit_request_vote ops p (vs_node s))\<rparr>"] show ?case
    using transpD [OF node_frame_preorder(2)] by fastforce
qed simp

lemma initialize_frame:
  "node_frame L (nd_current_term n = - 1) True n (vs_node (vote_session_initialize n))"
  using u64_less_plus_one [of "nd_current_term n"]
  by (auto simp: node_frame_def vote_session_initialize_def node_change_defs dest: less_asym)

end
