(* ===== verification/Replication.thy ===== *)
theory Replication
  imports Common Quorum "HOL-Library.Multiset"
begin

text \<open>
  The replication session of a leader (\<open>ReplicationSession\<close> of \<open>src/role/role_leader.rs\<close>): the
  \<open>(next_index, match_index)\<close> it keeps per peer, the heartbeats, the standby task that handles
  the answers to entries, and the task per peer that sends them.

  The map of peers sits behind a tokio \<open>RwLock\<close> that a task may hold across an \<open>.await\<close>, so
  the lock is part of the state. Acquiring it while it is held in a conflicting way gives
  \<open>Blocked\<close>: the computation is then suspended with everything it did so far in place, and goes
  on only if another task releases the lock. A guard is dropped however its scope ends, except
  that a suspended scope has not ended.
\<close>

datatype rwlock = Unlocked | ReadLocked nat | WriteLocked

record ('s, 'r) replication_session =
  rs_peers :: "(node_id, u64 \<times> u64 option) hashmap"
  rs_peers_lock :: rwlock
  rs_node :: "('s, 'r) raft_node"

type_synonym ('s, 'r, 'a) session_comp = "(('s, 'r) replication_session, 'a) comp"

section \<open>The lock\<close>

definition acquire_read :: "('s, 'r, unit) session_comp" where
  "acquire_read s =
     (case rs_peers_lock s of
        Unlocked \<Rightarrow> (Ok (), s\<lparr>rs_peers_lock := ReadLocked 0\<rparr>)
      | ReadLocked k \<Rightarrow> (Ok (), s\<lparr>rs_peers_lock := ReadLocked (Suc k)\<rparr>)
      | WriteLocked \<Rightarrow> (Blocked, s))"

definition release_read :: "('s, 'r) replication_session \<Rightarrow> ('s, 'r) replication_session" where
  "release_read s =
     (case rs_peers_lock s of
        ReadLocked (Suc k) \<Rightarrow> s\<lparr>rs_peers_lock := ReadLocked k\<rparr>
      | _ \<Rightarrow> s\<lparr>rs_peers_lock := Unlocked\<rparr>)"

definition acquire_write :: "('s, 'r, unit) session_comp" where
  "acquire_write s =
     (case rs_peers_lock s of
        Unlocked \<Rightarrow> (Ok (), s\<lparr>rs_peers_lock := WriteLocked\<rparr>)
      | _ \<Rightarrow> (Blocked, s))"

definition release_write :: "('s, 'r) replication_session \<Rightarrow> ('s, 'r) replication_session" where
  "release_write s = s\<lparr>rs_peers_lock := Unlocked\<rparr>"

definition holding ::
    "(('s, 'r) replication_session \<Rightarrow> ('s, 'r) replication_session)
       \<Rightarrow> ('s, 'r, 'a) session_comp \<Rightarrow> ('s, 'r, 'a) session_comp" where
  "holding release m s = (case m s of (Blocked, s') \<Rightarrow> (Blocked, s') | (r, s') \<Rightarrow> (r, release s'))"

definition with_read :: "('s, 'r, 'a) session_comp \<Rightarrow> ('s, 'r, 'a) session_comp" where
  "with_read m = then_c acquire_read (holding release_read m)"

definition with_write :: "('s, 'r, 'a) session_comp \<Rightarrow> ('s, 'r, 'a) session_comp" where
  "with_write m = then_c acquire_write (holding release_write m)"

definition on_rs_node :: "('s, 'r, 'a) node_comp \<Rightarrow> ('s, 'r, 'a) session_comp" where
  "on_rs_node m = zoom_c rs_node (\<lambda>n s. s\<lparr>rs_node := n\<rparr>) m"

text \<open>\<open>peers.get(..).unwrap()\<close> and \<open>peers.get_mut(..).unwrap()\<close>.\<close>

definition peer_entry :: "node_id \<Rightarrow> ('s, 'r, u64 \<times> u64 option) session_comp" where
  "peer_entry i s =
     (case hm_get (rs_peers s) i of None \<Rightarrow> (Panicked UnwrapNone, s) | Some e \<Rightarrow> (Ok e, s))"

definition set_peer :: "node_id \<Rightarrow> u64 \<times> u64 option \<Rightarrow> ('s, 'r, unit) session_comp" where
  "set_peer i e = modify_c (\<lambda>s. s\<lparr>rs_peers := hm_set i e (rs_peers s)\<rparr>)"

section \<open>Starting a session\<close>

definition replication_session_initialize ::
    "profile \<Rightarrow> ('s, 'r) state_ops \<Rightarrow> ('s, 'r) raft_node \<Rightarrow> ('s, 'r) replication_session outcome" where
  "replication_session_initialize pr ops n =
     map_outcome (\<lambda>next_index.
       \<lparr>rs_peers = map (\<lambda>(i, _). (i, (next_index, None)))
                    (filter (\<lambda>(i, _). i \<noteq> nd_id n) (get_membership ops (nd_state n))),
        rs_peers_lock = Unlocked, rs_node = n\<rparr>)
       (u64_add pr (get_last_commit_index ops (nd_state n)) 1)"

section \<open>Heartbeats\<close>

definition heartbeat_request ::
    "('s, 'r) raft_node \<Rightarrow> u64 \<Rightarrow> 'r append_entries_request" where
  "heartbeat_request n last_commit_index =
     \<lparr>ae_term = nd_current_term n, ae_leader_id = nd_id n,
      ae_last_commit_index = last_commit_index, ae_prev_log_index = 0, ae_prev_log_term = 0,
      ae_entries = []\<rparr>"

text \<open>Each heartbeat goes out in a task of its own; one that fails only ends itself.\<close>

fun emit_heartbeats ::
    "u64 \<Rightarrow> node_id list \<Rightarrow> ('s, 'r) replication_session \<Rightarrow> ('s, 'r) replication_session" where
  "emit_heartbeats last_commit_index [] s = s"
| "emit_heartbeats last_commit_index (p # ps) s =
     emit_heartbeats last_commit_index ps
       (s\<lparr>rs_node := snd (emit_append_entries
             (heartbeat_request (rs_node s) last_commit_index) p (rs_node s))\<rparr>)"

definition send_heartbeat_to_peers :: "('s, 'r) state_ops \<Rightarrow> ('s, 'r, unit) session_comp" where
  "send_heartbeat_to_peers ops =
     bind_c (gets_c (\<lambda>s. get_last_commit_index ops (nd_state (rs_node s)))) (\<lambda>last_commit_index.
     with_read (modify_c (\<lambda>s. emit_heartbeats last_commit_index (map fst (rs_peers s)) s)))"

datatype session_control = Next | Stop

definition decrement_next_index :: "profile \<Rightarrow> node_id \<Rightarrow> ('s, 'r, unit) session_comp" where
  "decrement_next_index pr i =
     bind_c (peer_entry i) (\<lambda>(next_index, match_index).
     bind_c (lift_c (u64_sub pr next_index 1)) (\<lambda>next_index.
     set_peer i (next_index, match_index)))"

definition leader_steps_down :: "('s, 'r) state_ops \<Rightarrow> u64 \<Rightarrow> ('s, 'r, session_control) session_comp" where
  "leader_steps_down ops t =
     then_c (on_rs_node (update_current_term ops t))
    (then_c (on_rs_node (modify_c change_to_follower_state))
     (return_c Stop))"

text \<open>One turn of the loop that waits for the answers to heartbeats.\<close>

definition on_heartbeat_response ::
    "profile \<Rightarrow> ('s, 'r) state_ops \<Rightarrow> append_entries_response
       \<Rightarrow> ('s, 'r, session_control) session_comp" where
  "on_heartbeat_response pr ops response =
     with_write
       (case aer_reason response of
          AeLogMismatch \<Rightarrow>
            then_c (decrement_next_index pr (aer_id response)) (return_c Next)
        | AeStaleTerm \<Rightarrow> leader_steps_down ops (aer_term response)
        | AeOk \<Rightarrow> return_c Next)"

fun heartbeat_loop ::
    "profile \<Rightarrow> ('s, 'r) state_ops \<Rightarrow> append_entries_response list \<Rightarrow> ('s, 'r, unit) session_comp" where
  "heartbeat_loop pr ops [] = return_c ()"
| "heartbeat_loop pr ops (response # replies) =
     bind_c (on_heartbeat_response pr ops response) (\<lambda>control.
       case control of Next \<Rightarrow> heartbeat_loop pr ops replies | Stop \<Rightarrow> return_c ())"

text \<open>The task \<open>send_heartbeats\<close> spawns; it is cut off when the heartbeat interval is over.\<close>

definition send_heartbeats ::
    "profile \<Rightarrow> ('s, 'r) state_ops \<Rightarrow> append_entries_response list \<Rightarrow> ('s, 'r, unit) session_comp" where
  "send_heartbeats pr ops replies =
     then_c (send_heartbeat_to_peers ops) (heartbeat_loop pr ops replies)"

section \<open>Replicating entries\<close>

text \<open>The match indices that are known, in the map's order, and the entry they commit.\<close>

definition known_match_indices :: "('s, 'r) replication_session \<Rightarrow> u64 list" where
  "known_match_indices s = List.map_filter (\<lambda>(_, (_, match_index)). match_index) (rs_peers s)"

definition median_index :: "u64 list \<Rightarrow> u64" where
  "median_index xs = sort xs ! (length xs div 2)"

definition calculate_last_commit_index ::
    "('s, 'r) state_ops \<Rightarrow> ('s, 'r, u64 option) session_comp" where
  "calculate_last_commit_index ops =
     bind_c (gets_c (\<lambda>s. nd_current_term (rs_node s))) (\<lambda>current_term.
     bind_c (with_read (gets_c known_match_indices)) (\<lambda>match_indices.
     if match_indices = [] then return_c None
     else
       gets_c (\<lambda>s.
         let median = median_index match_indices in
         (case get_entry ops (nd_state (rs_node s)) median of
            None \<Rightarrow> None
          | Some e \<Rightarrow> if le_term e = current_term then Some median else None))))"

definition advance_commit ::
    "('s, 'r) state_ops \<Rightarrow> u64 \<Rightarrow> u64 option \<Rightarrow> ('s, 'r, unit) session_comp" where
  "advance_commit ops our_last_commit_index last_commit_index =
     (case last_commit_index of
        None \<Rightarrow> return_c ()
      | Some c \<Rightarrow>
          if our_last_commit_index < c
          then on_rs_node (on_state (set_last_commit_index ops c))
          else return_c ())"

text \<open>One turn of the standby task's loop; the write guard lives until its end.\<close>

definition on_standby_response ::
    "profile \<Rightarrow> ('s, 'r) state_ops \<Rightarrow> append_entries_response
       \<Rightarrow> ('s, 'r, session_control) session_comp" where
  "on_standby_response pr ops response =
     with_write
       (case aer_reason response of
          AeLogMismatch \<Rightarrow>
            then_c (decrement_next_index pr (aer_id response)) (return_c Next)
        | AeOk \<Rightarrow>
            bind_c (peer_entry (aer_id response)) (\<lambda>(peer_next, peer_match).
            bind_c (lift_c (u64_add pr peer_next (aer_len response))) (\<lambda>next_index.
            bind_c (lift_c (u64_sub pr next_index 1)) (\<lambda>match_index.
            then_c (set_peer (aer_id response) (peer_next, Some match_index))
           (bind_c (lift_c (u64_add pr peer_next next_index)) (\<lambda>new_next.
            then_c (set_peer (aer_id response) (new_next, Some match_index))
           (bind_c (gets_c (\<lambda>s. get_last_commit_index ops (nd_state (rs_node s))))
              (\<lambda>our_last_commit_index.
            bind_c (calculate_last_commit_index ops) (\<lambda>last_commit_index.
            then_c (advance_commit ops our_last_commit_index last_commit_index)
                   (return_c Next)))))))))
        | AeStaleTerm \<Rightarrow> leader_steps_down ops (aer_term response))"

fun standby_loop ::
    "profile \<Rightarrow> ('s, 'r) state_ops \<Rightarrow> append_entries_response list \<Rightarrow> ('s, 'r, unit) session_comp" where
  "standby_loop pr ops [] = return_c ()"
| "standby_loop pr ops (response # replies) =
     bind_c (on_standby_response pr ops response) (\<lambda>control.
       case control of Next \<Rightarrow> standby_loop pr ops replies | Stop \<Rightarrow> return_c ())"

definition get_stale_peers :: "('s, 'r) state_ops \<Rightarrow> ('s, 'r, node_id list) session_comp" where
  "get_stale_peers ops =
     with_read (gets_c (\<lambda>s.
       let our_last_log_index = get_last_commit_index ops (nd_state (rs_node s)) in
       map fst (filter (\<lambda>(_, (next_index, _)). next_index \<le> our_last_log_index) (rs_peers s))))"

definition peer_matches :: "('s, 'r) state_ops \<Rightarrow> node_id \<Rightarrow> ('s, 'r, bool) session_comp" where
  "peer_matches ops peer =
     with_read
       (bind_c (gets_c (\<lambda>s. get_last_commit_index ops (nd_state (rs_node s)))) (\<lambda>our_last_log_index.
        bind_c (peer_entry peer) (\<lambda>(_, match_index).
        return_c (case match_index of None \<Rightarrow> False | Some i \<Rightarrow> i = our_last_log_index))))"

definition compose_append_entries_request ::
    "profile \<Rightarrow> ('s, 'r) state_ops \<Rightarrow> node_id \<Rightarrow> ('s, 'r, 'r append_entries_request) session_comp" where
  "compose_append_entries_request pr ops peer =
     with_read
       (bind_c (peer_entry peer) (\<lambda>(next_index, _).
        bind_c (gets_c (\<lambda>s. get_last_commit_index ops (nd_state (rs_node s)))) (\<lambda>last_commit_index.
        bind_c (lift_c (u64_sub pr next_index 1)) (\<lambda>prev_log_index.
        bind_c (gets_c (\<lambda>s. get_entry ops (nd_state (rs_node s)) prev_log_index)) (\<lambda>prev.
        case prev of
          None \<Rightarrow> lift_c (Panicked UnwrapNone)
        | Some e \<Rightarrow>
            gets_c (\<lambda>s. \<lparr>ae_term = nd_current_term (rs_node s), ae_leader_id = nd_id (rs_node s),
                         ae_last_commit_index = last_commit_index,
                         ae_prev_log_index = prev_log_index, ae_prev_log_term = le_term e,
                         ae_entries = get_entries ops (nd_state (rs_node s)) next_index None\<rparr>))))))"

text \<open>
  One turn of the task that brings one peer up to date. \<open>reply\<close> is what the outside answers,
  \<open>standby_rx\<close> the standby task's end of the channel the answer is passed to, and \<open>stopped\<close>
  whether the stop signal arrived in the millisecond the task listens for it.
\<close>

definition update_peer_turn ::
    "profile \<Rightarrow> ('s, 'r) state_ops \<Rightarrow> node_id \<Rightarrow> append_entries_response option \<Rightarrow> receiver \<Rightarrow> bool
       \<Rightarrow> ('s, 'r, session_control) session_comp" where
  "update_peer_turn pr ops peer reply standby_rx stopped =
     bind_c (peer_matches ops peer) (\<lambda>matches.
     if matches then return_c Stop
     else
       bind_c (compose_append_entries_request pr ops peer) (\<lambda>request.
       then_c (on_rs_node (send_append_entries_rpc request peer reply standby_rx))
              (return_c (if stopped then Stop else Next))))"

text \<open>
  The task per peer: \<open>env\<close> lists, turn by turn, what the outside answers and whether the stop
  signal arrives. Once the list is used up the task waits for the outside.
\<close>

fun update_peer_loop ::
    "profile \<Rightarrow> ('s, 'r) state_ops \<Rightarrow> node_id \<Rightarrow> receiver
       \<Rightarrow> (append_entries_response option \<times> bool) list \<Rightarrow> ('s, 'r, unit) session_comp" where
  "update_peer_loop pr ops peer standby_rx [] = lift_c Blocked"
| "update_peer_loop pr ops peer standby_rx ((reply, stopped) # env) =
     bind_c (update_peer_turn pr ops peer reply standby_rx stopped) (\<lambda>control.
       case control of Next \<Rightarrow> update_peer_loop pr ops peer standby_rx env | Stop \<Rightarrow> return_c ())"

text \<open>
  The peers for which \<open>start_standby_update_for_peers\<close> spawns such a task, and the standby task
  itself. With no task spawned no sender of its channel is left once the call returns, so the
  first \<open>recv\<close> gives \<open>None\<close> and the task ends.
\<close>

definition start_standby_update_for_peers ::
    "('s, 'r) state_ops \<Rightarrow> ('s, 'r, node_id list) session_comp" where
  "start_standby_update_for_peers ops = get_stale_peers ops"

definition standby_task ::
    "profile \<Rightarrow> ('s, 'r) state_ops \<Rightarrow> append_entries_response list \<Rightarrow> ('s, 'r, unit) session_comp" where
  "standby_task pr ops replies =
     bind_c (start_standby_update_for_peers ops) (\<lambda>updated.
       if updated = [] then return_c () else standby_loop pr ops replies)"

section \<open>Lemmas: the lock\<close>

lemma with_read_pure:
  "rs_peers_lock s = Unlocked \<Longrightarrow> with_read (gets_c f) s = (Ok (f (s\<lparr>rs_peers_lock := ReadLocked 0\<rparr>)), s)"
  by (cases s) (simp add: with_read_def acquire_read_def holding_def release_read_def outcome_simps)

lemma with_lock_blocked:
  "rs_peers_lock s = WriteLocked \<Longrightarrow> with_read m s = (Blocked, s)"
  "rs_peers_lock s = WriteLocked \<Longrightarrow> with_write k s = (Blocked, s)"
  by (simp_all add: with_read_def with_write_def acquire_read_def acquire_write_def outcome_simps)

text \<open>A scope that was not suspended has released the lock again.\<close>

lemma with_read_Ok:
  assumes "rs_peers_lock s = Unlocked"
  shows "with_read m s = (Ok a, s') \<longleftrightarrow>
    (\<exists>s1. m (s\<lparr>rs_peers_lock := ReadLocked 0\<rparr>) = (Ok a, s1) \<and> s' = release_read s1)"
  using assms
  by (auto simp: with_read_def acquire_read_def holding_def outcome_simps
      split: prod.splits outcome.splits)

lemma with_write_Ok:
  assumes "rs_peers_lock s = Unlocked"
  shows "with_write m s = (Ok a, s') \<longleftrightarrow>
    (\<exists>s1. m (s\<lparr>rs_peers_lock := WriteLocked\<rparr>) = (Ok a, s1) \<and> s' = release_write s1)"
  using assms
  by (auto simp: with_write_def acquire_write_def holding_def outcome_simps
      split: prod.splits outcome.splits)

lemma known_match_indices_lock [simp]:
  "known_match_indices (s\<lparr>rs_peers_lock := l\<rparr>) = known_match_indices s"
  by (simp add: known_match_indices_def)

section \<open>Lemmas: a fresh session\<close>

lemma initialize_session:
  assumes "replication_session_initialize pr ops n = Ok s"
  shows "rs_node s = n" "rs_peers_lock s = Unlocked"
    "rs_peers s = map (\<lambda>(i, _). (i, (get_last_commit_index ops (nd_state n) + 1, None)))
       (filter (\<lambda>(i, _). i \<noteq> nd_id n) (get_membership ops (nd_state n)))"
  using assms
  by (auto simp: replication_session_initialize_def u64_add_def split: if_splits)

lemma initialize_keys:
  assumes "replication_session_initialize pr ops n = Ok s"
  shows "map fst (rs_peers s) = filter (\<lambda>i. i \<noteq> nd_id n) (map fst (get_membership ops (nd_state n)))"
  unfolding initialize_session [OF assms]
  by (induction "get_membership ops (nd_state n)") (auto split: prod.splits simp: filter_map comp_def case_prod_beta)

lemma fresh_session_no_stale_peer:
  assumes init: "replication_session_initialize pr ops n = Ok s"
    and "get_last_commit_index ops (nd_state n) \<noteq> - 1"
  shows "get_stale_peers ops s = (Ok [], s)"
proof -
  from assms(2) have "get_last_commit_index ops (nd_state n) < get_last_commit_index ops (nd_state n) + 1"
    by (rule u64_less_plus_one)
  then show ?thesis
    by (auto simp: get_stale_peers_def with_read_pure initialize_session [OF init] filter_empty_conv
        Let_def not_le)
qed

section \<open>Lemmas: the commit index\<close>

lemma median_upper_half:
  fixes xs :: "u64 list"
  assumes "xs \<noteq> []"
  shows "length xs - length xs div 2 \<le> length (filter (\<lambda>i. median_index xs \<le> i) xs)"
proof -
  let ?k = "length xs div 2" and ?ys = "sort xs"
  have k: "?k < length ?ys" using assms by simp
  have "filter (\<lambda>i. median_index xs \<le> i) (drop ?k ?ys) = drop ?k ?ys"
  proof (rule filter_True, rule ballI)
    fix x assume "x \<in> set (drop ?k ?ys)"
    then obtain j where "j < length ?ys - ?k" "x = ?ys ! (?k + j)"
      by (auto simp: in_set_conv_nth)
    then show "median_index xs \<le> x"
      by (auto simp: median_index_def intro!: sorted_nth_mono)
  qed
  then have "length ?ys - ?k \<le> length (filter (\<lambda>i. median_index xs \<le> i) ?ys)"
    by (metis append_take_drop_id filter_append le_add2 length_append length_drop)
  moreover have "mset (filter (\<lambda>i. median_index xs \<le> i) ?ys) = mset (filter (\<lambda>i. median_index xs \<le> i) xs)"
    by simp
  then have "length (filter (\<lambda>i. median_index xs \<le> i) ?ys) = length (filter (\<lambda>i. median_index xs \<le> i) xs)"
    using mset_eq_length by blast
  ultimately show ?thesis by simp
qed

lemma calculate_run:
  assumes "rs_peers_lock s = Unlocked"
  shows "calculate_last_commit_index ops s =
    (Ok (if known_match_indices s = [] then None
         else case get_entry ops (nd_state (rs_node s)) (median_index (known_match_indices s)) of
                None \<Rightarrow> None
              | Some e \<Rightarrow> if le_term e = nd_current_term (rs_node s)
                          then Some (median_index (known_match_indices s)) else None), s)"
proof -
  have "with_read (gets_c known_match_indices) s = (Ok (known_match_indices s), s)"
    by (simp add: with_read_pure [OF assms])
  then show ?thesis
    by (auto simp: calculate_last_commit_index_def bind_c_def gets_c_def return_c_def Let_def
        split: option.splits)
qed

lemma calculate_Some:
  assumes "rs_peers_lock s = Unlocked"
    and "calculate_last_commit_index ops s = (Ok (Some c), s')"
  shows "s' = s" "known_match_indices s \<noteq> []" "c = median_index (known_match_indices s)"
    "\<exists>e. get_entry ops (nd_state (rs_node s)) c = Some e \<and> le_term e = nd_current_term (rs_node s)"
  using assms by (auto simp: calculate_run split: if_splits option.splits)

text \<open>
  The nodes that are known to hold the leader's log up to \<open>c\<close>: the leader, and every peer with
  a match index that high.
\<close>

definition replicators :: "('s, 'r) replication_session \<Rightarrow> u64 \<Rightarrow> node_id set" where
  "replicators s c = insert (nd_id (rs_node s))
     (fst ` set (filter (\<lambda>(_, (_, match_index)).
        case match_index of None \<Rightarrow> False | Some m \<Rightarrow> c \<le> m) (rs_peers s)))"

definition session_members :: "('s, 'r) replication_session \<Rightarrow> node_id set" where
  "session_members s = insert (nd_id (rs_node s)) (fst ` set (rs_peers s))"

definition wf_session :: "('s, 'r) replication_session \<Rightarrow> bool" where
  "wf_session s \<longleftrightarrow> is_hashmap (rs_peers s) \<and> nd_id (rs_node s) \<notin> fst ` set (rs_peers s)"

definition majority :: "node_id set \<Rightarrow> node_id set \<Rightarrow> bool" where
  "majority M Q \<longleftrightarrow> finite M \<and> Q \<subseteq> M \<and> card M < 2 * card Q"

interpretation commits: quorum_system "majority M" for M
proof
  fix Q Q' assume "majority M Q" "majority M Q'"
  then show "Q \<inter> Q' \<noteq> {}"
    by (intro card_overlap [of M]) (auto simp: majority_def)
qed

lemma known_length:
  "length (filter (\<lambda>i. c \<le> i) (known_match_indices s)) =
   length (filter (\<lambda>(_, (_, match_index)).
        case match_index of None \<Rightarrow> False | Some m \<Rightarrow> c \<le> m) (rs_peers s))"
proof -
  have "length (filter (\<lambda>i. c \<le> i) (List.map_filter (\<lambda>(_, (_, mi)). mi) ps)) =
    length (filter (\<lambda>(_, (_, mi)). case mi of None \<Rightarrow> False | Some m \<Rightarrow> c \<le> m) ps)"
    for ps :: "(node_id \<times> u64 \<times> u64 option) list"
    by (induction ps) (auto simp: List.map_filter_simps split: option.splits)
  then show ?thesis by (simp add: known_match_indices_def)
qed

lemma card_replicators:
  assumes "wf_session s"
  shows "card (replicators s c) = 1 + length (filter (\<lambda>i. c \<le> i) (known_match_indices s))"
proof -
  let ?P = "\<lambda>(_, (_, match_index)). case match_index of None \<Rightarrow> False | Some m \<Rightarrow> c \<le> m"
  let ?F = "filter ?P (rs_peers s)"
  have "distinct (map fst ?F)"
    using assms by (simp add: wf_session_def is_hashmap_def distinct_map_filter)
  then have "card (fst ` set ?F) = length ?F" using distinct_card [of "map fst ?F"] by simp
  moreover have "nd_id (rs_node s) \<notin> fst ` set ?F" using assms by (auto simp: wf_session_def)
  ultimately show ?thesis by (simp add: replicators_def known_length [of c s])
qed

lemma card_session_members:
  assumes "wf_session s"
  shows "card (session_members s) = 1 + length (rs_peers s)"
proof -
  have "card (fst ` set (rs_peers s)) = length (rs_peers s)"
    using assms distinct_card [of "map fst (rs_peers s)"] by (simp add: wf_session_def is_hashmap_def)
  with assms show ?thesis by (simp add: session_members_def wf_session_def)
qed

lemma commit_index_on_majority:
  assumes wf: "wf_session s" and unlocked: "rs_peers_lock s = Unlocked"
    and all_known: "length (known_match_indices s) = length (rs_peers s)"
    and run: "calculate_last_commit_index ops s = (Ok (Some c), s')"
  shows "majority (session_members s) (replicators s c)"
proof -
  let ?xs = "known_match_indices s"
  note c = calculate_Some [OF unlocked run]
  have half: "length ?xs - length ?xs div 2 \<le> length (filter (\<lambda>i. c \<le> i) ?xs)"
    unfolding c(3) by (rule median_upper_half [OF c(2)])
  have "replicators s c \<subseteq> session_members s" by (auto simp: replicators_def session_members_def)
  moreover have "card (session_members s) < 2 * card (replicators s c)"
    using half all_known by (simp add: card_session_members [OF wf] card_replicators [OF wf])
  ultimately show ?thesis by (simp add: majority_def session_members_def)
qed

section \<open>Lemmas: the standby task\<close>

text \<open>
  The part of a turn that runs under the write guard cannot finish once it asks for the read
  guard of the same lock.
\<close>

lemma calculate_blocked:
  "rs_peers_lock s = WriteLocked \<Longrightarrow> calculate_last_commit_index ops s = (Blocked, s)"
  by (simp add: calculate_last_commit_index_def bind_c_def gets_c_def with_lock_blocked)

lemma standby_ok_not_Ok:
  assumes "aer_reason response = AeOk"
  shows "on_standby_response pr ops response s \<noteq> (Ok c, s')"
proof (cases "rs_peers_lock s")
  case Unlocked
  then show ?thesis
    using assms
    by (auto simp: on_standby_response_def with_write_Ok bind_c_eq_Ok then_c_eq_Ok peer_entry_def
        lift_c_def set_peer_def modify_c_def gets_c_def calculate_blocked
        split: option.splits prod.splits)
qed (auto simp: on_standby_response_def with_write_def acquire_write_def outcome_simps)

lemma standby_ok_blocks:
  assumes "rs_peers_lock s = Unlocked" and ok: "aer_reason response = AeOk"
    and peer: "hm_get (rs_peers s) (aer_id response) = Some (nx, m)"
    and add1: "u64_add pr nx (aer_len response) = Ok a"
    and sub: "u64_sub pr a 1 = Ok b" and add2: "u64_add pr nx a = Ok d"
  shows "on_standby_response pr ops response s =
    (Blocked, s\<lparr>rs_peers_lock := WriteLocked,
       rs_peers := hm_set (aer_id response) (d, Some b) (hm_set (aer_id response) (nx, Some b) (rs_peers s))\<rparr>)"
  using assms
  by (simp add: on_standby_response_def with_write_def acquire_write_def holding_def bind_c_def
      outcome_simps peer_entry_def set_peer_def calculate_blocked)

lemma heartbeat_loop_blocked:
  "rs_peers_lock s = WriteLocked \<Longrightarrow> send_heartbeats pr ops replies s = (Blocked, s)"
  by (simp add: send_heartbeats_def send_heartbeat_to_peers_def bind_c_def outcome_simps
      with_lock_blocked)

section \<open>Lemmas: composing entries\<close>

context raft_log
begin

lemma compose_run:
  assumes "rs_peers_lock s = Unlocked" and "hm_get (rs_peers s) peer = Some (nx, m)" and "nx \<noteq> 0"
  shows "compose_append_entries_request pr ops peer s =
    (case entry_at base (log_of (nd_state (rs_node s))) (nx - 1) of
       None \<Rightarrow> (Panicked UnwrapNone, s)
     | Some e \<Rightarrow>
         (Ok \<lparr>ae_term = nd_current_term (rs_node s), ae_leader_id = nd_id (rs_node s),
              ae_last_commit_index = get_last_commit_index ops (nd_state (rs_node s)),
              ae_prev_log_index = nx - 1, ae_prev_log_term = le_term e,
              ae_entries = get_entries ops (nd_state (rs_node s)) nx None\<rparr>, s))"
proof -
  have sub: "u64_sub pr nx 1 = Ok (nx - 1)"
    using assms(3) by (auto simp: u64_sub_def unat_gt_0 [symmetric])
  have unlock: "s\<lparr>rs_peers_lock := Unlocked\<rparr> = s" using assms(1) by (cases s) simp
  show ?thesis
    using assms(1,2) sub
    by (auto simp: compose_append_entries_request_def with_read_def acquire_read_def holding_def
        bind_c_def outcome_simps peer_entry_def get_entry_law release_read_def unlock
        split: option.splits)
qed

end

section \<open>Lemmas: emitting heartbeats\<close>

lemma emit_append_entries_alive:
  assumes "ch_receiver (out_rpc (nd_channels n)) = Alive"
    and "ch_capacity (out_rpc (nd_channels n)) = None"
  shows "emit_append_entries req p n = (Ok (), n\<lparr>nd_channels := (nd_channels n)
    \<lparr>out_rpc := (out_rpc (nd_channels n))
       \<lparr>ch_queue := ch_queue (out_rpc (nd_channels n)) @ [(p, AppendEntries req Alive)]\<rparr>\<rparr>\<rparr>)"
  using assms by (simp add: emit_append_entries_def on_out_rpc_run channel_send_def channel_full_def)

lemma emit_heartbeats_queue:
  assumes "ch_receiver (out_rpc (nd_channels (rs_node s))) = Alive"
    and "ch_capacity (out_rpc (nd_channels (rs_node s))) = None"
  shows "ch_queue (out_rpc (nd_channels (rs_node (emit_heartbeats ci ps s)))) =
      ch_queue (out_rpc (nd_channels (rs_node s)))
        @ map (\<lambda>p. (p, AppendEntries (heartbeat_request (rs_node s) ci) Alive)) ps
    \<and> rs_peers (emit_heartbeats ci ps s) = rs_peers s
    \<and> rs_peers_lock (emit_heartbeats ci ps s) = rs_peers_lock s"
  using assms
proof (induction ps arbitrary: s)
  case Nil
  then show ?case by simp
next
  case (Cons p ps)
  then show ?case
    by (simp add: emit_append_entries_alive heartbeat_request_def)
qed

section \<open>The frame of a replication session\<close>

lemma rs_frame_lift [guarantee_intros]:
  "guarantees (node_frame L D K) m \<Longrightarrow> guarantees (via rs_node (node_frame L D K)) (on_rs_node m)"
  unfolding on_rs_node_def by (rule guarantees_zoom, assumption, simp)

lemma rs_frame_lock [guarantee_intros]:
  assumes "guarantees (via rs_node (node_frame L D K)) m"
  shows "guarantees (via rs_node (node_frame L D K)) (with_read m)"
    "guarantees (via rs_node (node_frame L D K)) (with_write m)"
proof -
  have rel: "rs_node (release_read s) = rs_node s" "rs_node (release_write s) = rs_node s" for s :: "('a, 'b) replication_session"
    by (simp_all add: release_read_def release_write_def split: rwlock.split nat.split)
  have hold: "guarantees (via rs_node (node_frame L D K)) (holding release_read m)"
    "guarantees (via rs_node (node_frame L D K)) (holding release_write m)"
    using assms
    by (auto simp: guarantees_def via_def holding_def rel split: prod.split outcome.split)
      (metis snd_conv)+
  have acq: "guarantees (via rs_node (node_frame L D K)) acquire_read"
    "guarantees (via rs_node (node_frame L D K)) acquire_write"
    by (auto simp: guarantees_def via_def acquire_read_def acquire_write_def split: rwlock.split)
  show "guarantees (via rs_node (node_frame L D K)) (with_read m)"
    unfolding with_read_def by (intro guarantee_intros hold acq)
  show "guarantees (via rs_node (node_frame L D K)) (with_write m)"
    unfolding with_write_def by (intro guarantee_intros hold acq)
qed

lemma rs_frame_peers [guarantee_intros]:
  "guarantees (via rs_node (node_frame L D K)) (peer_entry i)"
  "guarantees (via rs_node (node_frame L D K)) (set_peer i e)"
  by (auto simp: guarantees_def via_def peer_entry_def set_peer_def modify_c_def split: option.split)

lemma rs_frame_decrement [guarantee_intros]:
  "guarantees (via rs_node (node_frame L D K)) (decrement_next_index pr i)"
  unfolding decrement_next_index_def by (intro guarantee_intros)

lemma rs_frame_steps_down [guarantee_intros]:
  "guarantees (via rs_node (node_frame L True True)) (leader_steps_down ops t)"
  unfolding leader_steps_down_def by (intro guarantee_intros)

lemma leader_steps_down_frame:
  "node_frame L (t < nd_current_term (rs_node s)) K (rs_node s)
     (rs_node (snd (leader_steps_down ops t s)))"
proof -
  obtain r n1 where run: "update_current_term ops t (rs_node s) = (r, n1)" by force
  have "rs_node (snd (leader_steps_down ops t s)) = (if is_ok r then change_to_follower_state n1 else n1)"
    using run by (cases r) (simp_all add: leader_steps_down_def on_rs_node_def outcome_simps bind_c_def)
  with step_down_frame [OF disjI1 [OF refl] run, of L K] show ?thesis by simp
qed

lemma rs_write_frame_at:
  assumes "\<And>s1. rs_node s1 = rs_node s \<Longrightarrow> R (rs_node s) (rs_node (snd (m s1)))"
    and "R (rs_node s) (rs_node s)"
  shows "R (rs_node s) (rs_node (snd (with_write m s)))"
  using assms(1) [of "s\<lparr>rs_peers_lock := WriteLocked\<rparr>"] assms(2)
  by (auto simp: with_write_def acquire_write_def holding_def outcome_simps bind_c_def
      release_write_def split: prod.split outcome.split rwlock.split)

lemma rs_frame_calculate [guarantee_intros]:
  "guarantees (via rs_node (node_frame L D K)) (calculate_last_commit_index ops)"
  "guarantees (via rs_node (node_frame L D K)) (advance_commit ops c c')"
  "guarantees (via rs_node (node_frame L D K)) (peer_matches ops peer)"
  unfolding calculate_last_commit_index_def advance_commit_def peer_matches_def
  by (intro guarantee_intros)+

lemma guarantees_reason [guarantee_intros]:
  "guarantees R a \<Longrightarrow> guarantees R b \<Longrightarrow> guarantees R c \<Longrightarrow>
     guarantees R (case reason of AeStaleTerm \<Rightarrow> a | AeLogMismatch \<Rightarrow> b | AeOk \<Rightarrow> c)"
  by (simp split: append_entries_response_reason.split)

definition leader_stale :: "append_entries_response \<Rightarrow> ('s, 'r) raft_node \<Rightarrow> bool" where
  "leader_stale response n \<longleftrightarrow>
     aer_reason response = AeStaleTerm \<and> aer_term response < nd_current_term n"

lemma rs_frame_responses:
  "node_frame L (leader_stale response (rs_node s)) K (rs_node s)
     (rs_node (snd (on_heartbeat_response pr ops response s)))"
  "node_frame L (leader_stale response (rs_node s)) K (rs_node s)
     (rs_node (snd (on_standby_response pr ops response s)))"
proof -
  have stale: "node_frame L (leader_stale response (rs_node s)) K (rs_node s)
      (rs_node (snd (with_write (leader_steps_down ops (aer_term response)) s)))"
    if "aer_reason response = AeStaleTerm"
  proof (rule rs_write_frame_at [where m = "leader_steps_down ops (aer_term response)"
        and R = "node_frame L (leader_stale response (rs_node s)) K"])
    fix s1 :: "('a, 'b) replication_session" assume "rs_node s1 = rs_node s"
    with that leader_steps_down_frame [of L "aer_term response" s1 K ops]
    show "node_frame L (leader_stale response (rs_node s)) K (rs_node s)
        (rs_node (snd (leader_steps_down ops (aer_term response) s1)))"
      by (simp add: leader_stale_def)
  qed simp
  have other: "guarantees (via rs_node (node_frame L False False)) (on_heartbeat_response pr ops response)"
    "guarantees (via rs_node (node_frame L False False)) (on_standby_response pr ops response)"
    if "aer_reason response \<noteq> AeStaleTerm"
    using that unfolding on_heartbeat_response_def on_standby_response_def
    by (cases "aer_reason response"; simp only: append_entries_response_reason.case;
        intro guarantee_intros; simp)+
  show "node_frame L (leader_stale response (rs_node s)) K (rs_node s)
      (rs_node (snd (on_heartbeat_response pr ops response s)))"
    using stale guarantees_at [OF other(1), of s]
    by (cases "aer_reason response = AeStaleTerm")
      (auto simp: on_heartbeat_response_def via_def intro: node_frame_weaken)
  show "node_frame L (leader_stale response (rs_node s)) K (rs_node s)
      (rs_node (snd (on_standby_response pr ops response s)))"
    using stale guarantees_at [OF other(2), of s]
    by (cases "aer_reason response = AeStaleTerm")
      (auto simp: on_standby_response_def via_def intro: node_frame_weaken)
qed

lemma rs_frame_compose [guarantee_intros]:
  "guarantees (via rs_node (node_frame L D K)) (compose_append_entries_request pr ops peer)"
  "guarantees (via rs_node (node_frame L D K)) (update_peer_turn pr ops peer reply rx stopped)"
proof -
  show "guarantees (via rs_node (node_frame L D K)) (compose_append_entries_request pr ops peer)"
    unfolding compose_append_entries_request_def by (intro guarantee_intros)
  then show "guarantees (via rs_node (node_frame L D K)) (update_peer_turn pr ops peer reply rx stopped)"
    unfolding update_peer_turn_def by (intro guarantee_intros)
qed

lemma emit_heartbeats_frame: "node_frame L D K (rs_node s) (rs_node (emit_heartbeats ci ps s))"
proof (induction ps arbitrary: s)
  case (Cons p ps)
  have "node_frame L D K (rs_node s)
     (snd (emit_append_entries (heartbeat_request (rs_node s) ci) p (rs_node s)))"
    by (rule guarantees_at [OF node_frame_emit(2)])
  with Cons.IH [of "s\<lparr>rs_node := snd (emit_append_entries
      (heartbeat_request (rs_node s) ci) p (rs_node s))\<rparr>"] show ?case
    using transpD [OF node_frame_preorder(2)] by fastforce
qed simp

lemma rs_frame_heartbeats [guarantee_intros]:
  "guarantees (via rs_node (node_frame L D K)) (send_heartbeat_to_peers ops)"
proof -
  have "guarantees (via rs_node (node_frame L D K)) (modify_c (\<lambda>s. emit_heartbeats ci (map fst (rs_peers s)) s))" for ci
    by (rule guarantees_modify) (simp add: via_def emit_heartbeats_frame)
  then show ?thesis
    unfolding send_heartbeat_to_peers_def by (intro guarantee_intros)
qed

end
