(* ===== verification/Roles.thy ===== *)
theory Roles
  imports Vote_Session Replication Builder
begin

text \<open>
  The main loops of the three roles (\<open>src/role/role_follower.rs\<close>, \<open>role_candidate.rs\<close>,
  \<open>role_leader.rs\<close>) and the loop of \<open>RaftNode::start\<close> that runs one role after the other.

  A loop turn has two halves, which other tasks of the node may run between: \<open>_enter\<close> tests that
  the node still has the role and arms the timers of the \<open>select!\<close>, and \<open>_branch\<close> runs the branch
  the \<open>select!\<close> picked. A branch whose channel has no message is not ready: \<open>Blocked\<close>; so is
  one whose channel is closed, which \<open>select!\<close> disables. A spawned task is recorded by the
  instant that cuts it off; what it does is \<open>request_votes\<close> and \<open>send_heartbeats\<close>.

  A branch's value is the reply it sent, if any.
\<close>

datatype 'p reply =
    NoReply
  | VoteReply request_vote_response
  | AppendReply append_entries_response
  | ClientReply "'p client_response"

datatype select_branch =
    OnShutdown | OnRpc | OnClientRequest | OnElectionTimeout | OnRetryTimeout | OnHeartbeatTimeout
  | OnVoteResult

section \<open>Receiving\<close>

definition on_in_rpc :: "('r peer_rpc channel, 'a) comp \<Rightarrow> ('s, 'r, 'a) node_comp" where
  "on_in_rpc m = zoom_c (\<lambda>n. in_rpc (nd_channels n))
     (\<lambda>ch n. n\<lparr>nd_channels := (nd_channels n)\<lparr>in_rpc := ch\<rparr>\<rparr>) m"

definition on_in_client :: "('r client_request channel, 'a) comp \<Rightarrow> ('s, 'r, 'a) node_comp" where
  "on_in_client m = zoom_c (\<lambda>n. in_client_request (nd_channels n))
     (\<lambda>ch n. n\<lparr>nd_channels := (nd_channels n)\<lparr>in_client_request := ch\<rparr>\<rparr>) m"

text \<open>A branch with the pattern \<open>Some(x) = rx.recv()\<close>.\<close>

definition recv_some :: "('s, 'm option) comp \<Rightarrow> ('s, 'm) comp" where
  "recv_some m = bind_c m (\<lambda>x. case x of Some y \<Rightarrow> return_c y | None \<Rightarrow> lift_c Blocked)"

text \<open>The three branches that follower and candidate share.\<close>

definition shutdown_branch :: "('s, 'r, 'p reply) node_comp" where
  "shutdown_branch =
     then_c (on_shutdown channel_recv)
    (then_c (modify_c change_to_shutdown_state) (return_c NoReply))"

definition rpc_branch ::
    "('s, 'r) state_ops \<Rightarrow> instant \<Rightarrow> ('s, 'r, 'p reply) node_comp" where
  "rpc_branch ops now =
     bind_c (recv_some (on_in_rpc channel_recv)) (\<lambda>request.
     case request of
       AppendEntries req tx \<Rightarrow>
         bind_c (respond_to_append_entries ops now req tx) (\<lambda>r. return_c (AppendReply r))
     | RequestVote req tx \<Rightarrow>
         bind_c (respond_to_request_vote ops req tx) (\<lambda>r. return_c (VoteReply r))
     | Config _ _ \<Rightarrow> lift_c (Panicked (Unimplemented ''Config RPC not implemented''))
     | InstallSnapshot _ _ \<Rightarrow>
         lift_c (Panicked (Unimplemented ''InstallSnapshot RPC not implemented'')))"

definition redirect_response :: "node_id option \<Rightarrow> 'p client_response" where
  "redirect_response leader =
     (case leader of
        Some l \<Rightarrow> \<lparr>cr_success = False, cr_reason = Redirect, cr_leader_id = Some l, cr_payload = None\<rparr>
      | None \<Rightarrow> \<lparr>cr_success = False, cr_reason = NoLeaderYet, cr_leader_id = None, cr_payload = None\<rparr>)"

definition client_redirect_branch :: "('s, 'r, 'p reply) node_comp" where
  "client_redirect_branch =
     bind_c (recv_some (on_in_client channel_recv)) (\<lambda>request.
     case request of ClientRequest _ tx \<Rightarrow>
       bind_c (gets_c nd_leader_id) (\<lambda>leader.
       bind_c (lift_c (send_response tx (redirect_response leader))) (\<lambda>r.
       return_c (ClientReply r))))"

section \<open>Follower\<close>

record ('s, 'r) follower_task =
  ft_node :: "('s, 'r) raft_node"
  ft_election_timeout :: timeout

definition on_ft_node :: "('s, 'r, 'a) node_comp \<Rightarrow> (('s, 'r) follower_task, 'a) comp" where
  "on_ft_node m = zoom_c ft_node (\<lambda>n t. t\<lparr>ft_node := n\<rparr>) m"

definition follower_start ::
    "(u64 \<Rightarrow> u64 \<Rightarrow> u64) \<Rightarrow> instant \<Rightarrow> ('s, 'r) raft_node \<Rightarrow> ('s, 'r) follower_task outcome" where
  "follower_start gen_range now n =
     map_outcome (\<lambda>t. \<lparr>ft_node = n, ft_election_timeout = t\<rparr>) (new_election_timeout gen_range now n)"

definition follower_enter :: "instant \<Rightarrow> ('s, 'r) follower_task \<Rightarrow> instant option outcome" where
  "follower_enter now t =
     (if \<not> is_follower_state (ft_node t) then Ok None
      else map_outcome Some (continuation now (ft_election_timeout t)))"

definition reset_election_timeout ::
    "(u64 \<Rightarrow> u64 \<Rightarrow> u64) \<Rightarrow> instant \<Rightarrow> (('s, 'r) follower_task, unit) comp" where
  "reset_election_timeout gen_range now =
     bind_c (gets_c ft_election_timeout) (\<lambda>t.
     bind_c (lift_c (timeout_reset gen_range now t)) (\<lambda>t'.
     modify_c (\<lambda>s. s\<lparr>ft_election_timeout := t'\<rparr>)))"

definition follower_branch ::
    "('s, 'r) state_ops \<Rightarrow> (u64 \<Rightarrow> u64 \<Rightarrow> u64) \<Rightarrow> instant \<Rightarrow> select_branch
       \<Rightarrow> (('s, 'r) follower_task, 'p reply) comp" where
  "follower_branch ops gen_range now b =
     (case b of
        OnShutdown \<Rightarrow> on_ft_node shutdown_branch
      | OnRpc \<Rightarrow>
          bind_c (on_ft_node (rpc_branch ops now)) (\<lambda>r.
          then_c (reset_election_timeout gen_range now) (return_c r))
      | OnClientRequest \<Rightarrow> on_ft_node client_redirect_branch
      | OnElectionTimeout \<Rightarrow>
          then_c (on_ft_node (modify_c change_to_candidate_state)) (return_c NoReply)
      | _ \<Rightarrow> lift_c Blocked)"

section \<open>Candidate\<close>

record ('s, 'r) candidate_task =
  ct_session :: "('s, 'r) vote_session"
  ct_election_timeout :: timeout
  ct_retry_timeout :: timeout
  ct_vote_tasks :: "instant list"

definition on_ct_node :: "('s, 'r, 'a) node_comp \<Rightarrow> (('s, 'r) candidate_task, 'a) comp" where
  "on_ct_node m = zoom_c ct_session (\<lambda>v t. t\<lparr>ct_session := v\<rparr>) (on_vs_node m)"

definition on_ct_session :: "('s, 'r, 'a) vote_comp \<Rightarrow> (('s, 'r) candidate_task, 'a) comp" where
  "on_ct_session m = zoom_c ct_session (\<lambda>v t. t\<lparr>ct_session := v\<rparr>) m"

text \<open>\<open>session.request_votes(retry.clone(), election.clone())\<close>: the task is spawned.\<close>

definition spawn_request_votes :: "instant \<Rightarrow> (('s, 'r) candidate_task, unit) comp" where
  "spawn_request_votes now t =
     bind_c (lift_c (timeouts now (ct_retry_timeout t) (ct_election_timeout t))) (\<lambda>cutoff.
     modify_c (\<lambda>t. t\<lparr>ct_vote_tasks := ct_vote_tasks t @ [cutoff]\<rparr>)) t"

definition candidate_start ::
    "(u64 \<Rightarrow> u64 \<Rightarrow> u64) \<Rightarrow> instant \<Rightarrow> ('s, 'r) raft_node
       \<Rightarrow> unit outcome \<times> ('s, 'r) candidate_task option" where
  "candidate_start gen_range now n =
     (case new_election_timeout gen_range now n of
        Ok election \<Rightarrow>
          (case spawn_request_votes now
                  \<lparr>ct_session = vote_session_initialize n, ct_election_timeout = election,
                   ct_retry_timeout = timeout_start now (nd_heartbeat_interval n),
                   ct_vote_tasks = []\<rparr> of (r, t) \<Rightarrow> (r, Some t))
      | Err e \<Rightarrow> (Err e, None) | Panicked p \<Rightarrow> (Panicked p, None) | Blocked \<Rightarrow> (Blocked, None))"

text \<open>The value is the two deadlines the \<open>select!\<close> waits for, the retry timer's first.\<close>

definition candidate_enter ::
    "instant \<Rightarrow> ('s, 'r) candidate_task \<Rightarrow> (instant \<times> instant) option outcome" where
  "candidate_enter now t =
     (if \<not> is_candidate_state (vs_node (ct_session t)) then Ok None
      else case continuation now (ct_retry_timeout t) of
             Ok r \<Rightarrow> map_outcome (\<lambda>e. Some (r, e)) (continuation now (ct_election_timeout t))
           | Err e \<Rightarrow> Err e | Panicked p \<Rightarrow> Panicked p | Blocked \<Rightarrow> Blocked)"

definition candidate_branch ::
    "('s, 'r) state_ops \<Rightarrow> (u64 \<Rightarrow> u64 \<Rightarrow> u64) \<Rightarrow> instant \<Rightarrow> select_branch
       \<Rightarrow> (('s, 'r) candidate_task, 'p reply) comp" where
  "candidate_branch ops gen_range now b =
     (case b of
        OnShutdown \<Rightarrow> on_ct_node shutdown_branch
      | OnVoteResult \<Rightarrow>
          bind_c (recv_some (on_ct_session (on_vote_result channel_recv))) (\<lambda>result.
          case result of
            NoPeers \<Rightarrow> then_c (on_ct_node (modify_c change_to_leader_state)) (return_c NoReply)
          | Granted \<Rightarrow> then_c (on_ct_node (modify_c change_to_leader_state)) (return_c NoReply))
      | OnRpc \<Rightarrow> on_ct_node (rpc_branch ops now)
      | OnClientRequest \<Rightarrow> on_ct_node client_redirect_branch
      | OnRetryTimeout \<Rightarrow>
          bind_c (gets_c ct_retry_timeout) (\<lambda>t.
          bind_c (lift_c (timeout_reset gen_range now t)) (\<lambda>t'.
          then_c (modify_c (\<lambda>s. s\<lparr>ct_retry_timeout := t'\<rparr>))
         (then_c (spawn_request_votes now) (return_c NoReply))))
      | OnElectionTimeout \<Rightarrow>
          bind_c (gets_c ct_election_timeout) (\<lambda>e.
          bind_c (lift_c (timeout_reset gen_range now e)) (\<lambda>e'.
          then_c (modify_c (\<lambda>s. s\<lparr>ct_election_timeout := e'\<rparr>))
         (bind_c (gets_c ct_retry_timeout) (\<lambda>t.
          bind_c (lift_c (timeout_reset gen_range now t)) (\<lambda>t'.
          then_c (modify_c (\<lambda>s. s\<lparr>ct_retry_timeout := t'\<rparr>))
         (then_c (modify_c (\<lambda>s. s\<lparr>ct_session := vote_session_initialize (vs_node (ct_session s))\<rparr>))
         (then_c (spawn_request_votes now) (return_c NoReply))))))))
      | OnHeartbeatTimeout \<Rightarrow> lift_c Blocked)"

section \<open>Leader\<close>

record ('s, 'r) leader_task =
  lt_session :: "('s, 'r) replication_session"
  lt_heartbeat_timeout :: timeout
  lt_heartbeat_tasks :: "instant list"
  lt_standby_started :: bool
  lt_stop_signalled :: bool

definition on_lt_node :: "('s, 'r, 'a) node_comp \<Rightarrow> (('s, 'r) leader_task, 'a) comp" where
  "on_lt_node m = zoom_c lt_session (\<lambda>v t. t\<lparr>lt_session := v\<rparr>) (on_rs_node m)"

text \<open>\<open>session.send_heartbeats(heartbeat_timeout.clone())\<close>: the task is spawned.\<close>

definition spawn_heartbeats :: "instant \<Rightarrow> (('s, 'r) leader_task, unit) comp" where
  "spawn_heartbeats now t =
     bind_c (lift_c (get_remaining now (lt_heartbeat_timeout t))) (\<lambda>rem.
     modify_c (\<lambda>t. t\<lparr>lt_heartbeat_tasks := lt_heartbeat_tasks t @ [now + rem]\<rparr>)) t"

definition leader_start ::
    "profile \<Rightarrow> ('s, 'r) state_ops \<Rightarrow> instant \<Rightarrow> ('s, 'r) raft_node
       \<Rightarrow> unit outcome \<times> ('s, 'r) leader_task option" where
  "leader_start pr ops now n =
     (case replication_session_initialize pr ops n of
        Ok session \<Rightarrow>
          (case then_c (spawn_heartbeats now) (modify_c (\<lambda>t. t\<lparr>lt_standby_started := True\<rparr>))
                  \<lparr>lt_session = session,
                   lt_heartbeat_timeout = timeout_start now (nd_heartbeat_interval n),
                   lt_heartbeat_tasks = [], lt_standby_started = False,
                   lt_stop_signalled = False\<rparr> of (r, t) \<Rightarrow> (r, Some t))
      | Err e \<Rightarrow> (Err e, None) | Panicked p \<Rightarrow> (Panicked p, None) | Blocked \<Rightarrow> (Blocked, None))"

text \<open>Leaving the loop signals the tasks that update the peers to stop.\<close>

definition leader_enter :: "instant \<Rightarrow> (('s, 'r) leader_task, instant option) comp" where
  "leader_enter now t =
     (if \<not> is_leader_state (rs_node (lt_session t))
      then (Ok None, t\<lparr>lt_stop_signalled := True\<rparr>)
      else (map_outcome Some (continuation now (lt_heartbeat_timeout t)), t))"

definition client_append_branch :: "('s, 'r) state_ops \<Rightarrow> ('s, 'r, 'p reply) node_comp" where
  "client_append_branch ops =
     bind_c (recv_some (on_in_client channel_recv)) (\<lambda>request.
     case request of ClientRequest request _ \<Rightarrow>
       bind_c (gets_c nd_current_term) (\<lambda>current_term.
       then_c (on_state (append_entries ops
                [\<lparr>le_term = current_term, le_command = ClientCommand request\<rparr>]))
              (return_c NoReply)))"

definition leader_branch ::
    "('s, 'r) state_ops \<Rightarrow> (u64 \<Rightarrow> u64 \<Rightarrow> u64) \<Rightarrow> instant \<Rightarrow> select_branch
       \<Rightarrow> (('s, 'r) leader_task, 'p reply) comp" where
  "leader_branch ops gen_range now b =
     (case b of
        OnShutdown \<Rightarrow> on_lt_node shutdown_branch
      | OnRpc \<Rightarrow> on_lt_node (rpc_branch ops now)
      | OnClientRequest \<Rightarrow> on_lt_node (client_append_branch ops)
      | OnHeartbeatTimeout \<Rightarrow>
          bind_c (gets_c lt_heartbeat_timeout) (\<lambda>t.
          bind_c (lift_c (timeout_reset gen_range now t)) (\<lambda>t'.
          then_c (modify_c (\<lambda>s. s\<lparr>lt_heartbeat_timeout := t'\<rparr>))
         (then_c (spawn_heartbeats now) (return_c NoReply))))
      | _ \<Rightarrow> lift_c Blocked)"

section \<open>The loop over roles\<close>

datatype next_role = RunFollower | RunCandidate | RunLeader | Finished

definition node_dispatch :: "('s, 'r) raft_node \<Rightarrow> next_role outcome" where
  "node_dispatch n =
     (case nd_current_state n of
        Follower \<Rightarrow> Ok RunFollower
      | Candidate \<Rightarrow> Ok RunCandidate
      | Leader \<Rightarrow> Ok RunLeader
      | NonVoter \<Rightarrow> Panicked (Todo ''Implement NonVotingMember state'')
      | Shutdown \<Rightarrow> Ok Finished)"

section \<open>Lemmas\<close>

lemma recv_some_eq_Ok:
  "recv_some m s = (Ok y, s') \<longleftrightarrow> m s = (Ok (Some y), s')"
  by (auto simp: recv_some_def bind_c_eq_Ok return_c_def lift_c_def split: option.splits)

lemma on_in_client_eq_Ok:
  "on_in_client m n = (Ok a, n') \<longleftrightarrow>
     (\<exists>ch. m (in_client_request (nd_channels n)) = (Ok a, ch) \<and>
           n' = n\<lparr>nd_channels := (nd_channels n)\<lparr>in_client_request := ch\<rparr>\<rparr>)"
  by (auto simp: on_in_client_def zoom_c_def split: prod.splits)

lemma on_in_rpc_eq_Ok:
  "on_in_rpc m n = (Ok a, n') \<longleftrightarrow>
     (\<exists>ch. m (in_rpc (nd_channels n)) = (Ok a, ch) \<and>
           n' = n\<lparr>nd_channels := (nd_channels n)\<lparr>in_rpc := ch\<rparr>\<rparr>)"
  by (auto simp: on_in_rpc_def zoom_c_def split: prod.splits)

text \<open>The queue of client requests: a branch that ran took its oldest message.\<close>

definition take_client :: "('s, 'r) raft_node \<Rightarrow> ('s, 'r) raft_node" where
  "take_client n = n\<lparr>nd_channels := (nd_channels n)
     \<lparr>in_client_request := (in_client_request (nd_channels n))
        \<lparr>ch_queue := tl (ch_queue (in_client_request (nd_channels n)))\<rparr>\<rparr>\<rparr>"

lemma take_client_sel [simp]:
  "nd_current_term (take_client n) = nd_current_term n" "nd_state (take_client n) = nd_state n"
  "nd_leader_id (take_client n) = nd_leader_id n" "nd_current_state (take_client n) = nd_current_state n"
  "nd_voted_for (take_client n) = nd_voted_for n" "nd_id (take_client n) = nd_id n"
  by (simp_all add: take_client_def)

lemma recv_client_Ok:
  "recv_some (on_in_client channel_recv) n = (Ok req, n') \<longleftrightarrow>
     (\<exists>ms. ch_queue (in_client_request (nd_channels n)) = req # ms \<and> n' = take_client n)"
  by (auto simp: recv_some_eq_Ok on_in_client_eq_Ok channel_recv_Some take_client_def)

lemma client_redirect_run:
  assumes "client_redirect_branch n = (Ok r, n')"
  obtains req ms where "ch_queue (in_client_request (nd_channels n)) = ClientRequest req Alive # ms"
    "n' = take_client n" "r = ClientReply (redirect_response (nd_leader_id n))"
proof -
  from assms obtain m ms where q: "ch_queue (in_client_request (nd_channels n)) = m # ms"
    and rest: "(case m of ClientRequest _ tx \<Rightarrow>
       bind_c (gets_c nd_leader_id) (\<lambda>leader.
       bind_c (lift_c (send_response tx (redirect_response leader))) (\<lambda>r.
       return_c (ClientReply r)))) (take_client n) = (Ok r, n')"
    by (auto simp: client_redirect_branch_def bind_c_eq_Ok [of "recv_some m" for m] recv_client_Ok)
  then show thesis
    by (cases m) (auto simp: bind_c_eq_Ok gets_c_def lift_c_def return_c_def intro: that)
qed

lemma client_redirect_result:
  assumes "client_redirect_branch n = (Ok r, n')"
  shows "r = ClientReply (redirect_response (nd_leader_id n)) \<and> n' = take_client n"
proof (rule client_redirect_run [OF assms])
  fix req ms assume "n' = take_client n" "r = ClientReply (redirect_response (nd_leader_id n))"
  then show ?thesis by simp
qed

lemma client_append_run:
  assumes "client_append_branch ops n = (Ok r, n')"
  obtains req tx ms st where "ch_queue (in_client_request (nd_channels n)) = ClientRequest req tx # ms"
    "append_entries ops [\<lparr>le_term = nd_current_term n, le_command = ClientCommand req\<rparr>] (nd_state n)
       = (Ok (), st)"
    "n' = (take_client n)\<lparr>nd_state := st\<rparr>" "r = NoReply"
proof -
  from assms obtain m ms where q: "ch_queue (in_client_request (nd_channels n)) = m # ms"
    and rest: "(case m of ClientRequest request _ \<Rightarrow>
       bind_c (gets_c nd_current_term) (\<lambda>current_term.
       then_c (on_state (append_entries ops
                [\<lparr>le_term = current_term, le_command = ClientCommand request\<rparr>]))
              (return_c NoReply))) (take_client n) = (Ok r, n')"
    by (auto simp: client_append_branch_def bind_c_eq_Ok [of "recv_some m" for m] recv_client_Ok)
  then show thesis
    by (cases m) (auto simp: bind_c_eq_Ok then_c_eq_Ok on_state_eq_Ok gets_c_def return_c_def
        intro: that)
qed

text \<open>A turn that starts after the deadline of one of its timers panics.\<close>

lemma follower_enter_late:
  "is_follower_state (ft_node t) \<Longrightarrow> deadline (ft_election_timeout t) < now \<Longrightarrow>
     follower_enter now t = Panicked DurationUnderflow"
  by (simp add: follower_enter_def continuation_late)

lemma leader_enter_late:
  "is_leader_state (rs_node (lt_session t)) \<Longrightarrow> deadline (lt_heartbeat_timeout t) < now \<Longrightarrow>
     leader_enter now t = (Panicked DurationUnderflow, t)"
  by (simp add: leader_enter_def continuation_late)

section \<open>The frame of a role\<close>

lemma guarantees_messages [guarantee_intros]:
  "(\<And>req tx. guarantees R (a req tx)) \<Longrightarrow> (\<And>req tx. guarantees R (b req tx)) \<Longrightarrow>
   (\<And>req tx. guarantees R (c req tx)) \<Longrightarrow> (\<And>req tx. guarantees R (d req tx)) \<Longrightarrow>
     guarantees R (case rpc of AppendEntries req tx \<Rightarrow> a req tx | RequestVote req tx \<Rightarrow> b req tx
       | InstallSnapshot req tx \<Rightarrow> c req tx | Config req tx \<Rightarrow> d req tx)"
  "(\<And>req tx. guarantees R (e req tx)) \<Longrightarrow>
     guarantees R (case cl of ClientRequest req tx \<Rightarrow> e req tx)"
  "guarantees R m \<Longrightarrow> guarantees R k \<Longrightarrow>
     guarantees R (case res of NoPeers \<Rightarrow> m | Granted \<Rightarrow> k)"
  by (simp_all split: peer_rpc.split client_request.split vote_result.split)

lemma recv_frame [guarantee_intros]:
  "guarantees (node_frame L D K) (on_in_rpc m)" "guarantees (node_frame L D K) (on_in_client k)"
  by (auto simp: guarantees_def on_in_rpc_def on_in_client_def zoom_c_def split: prod.split)

lemma recv_some_frame [guarantee_intros]:
  "reflp R \<Longrightarrow> transp R \<Longrightarrow> guarantees R m \<Longrightarrow> guarantees R (recv_some m)"
  unfolding recv_some_def by (intro guarantee_intros)

lemma branch_frame [guarantee_intros]:
  "guarantees (node_frame L D K) shutdown_branch"
  "guarantees (node_frame L D K) (rpc_branch ops now)"
  "guarantees (node_frame L D K) client_redirect_branch"
  "guarantees (node_frame L D K) (client_append_branch ops)"
  unfolding shutdown_branch_def rpc_branch_def client_redirect_branch_def client_append_branch_def
  by (intro guarantee_intros)+

lemma ft_frame_lift [guarantee_intros]:
  "guarantees (node_frame L D K) m \<Longrightarrow> guarantees (via ft_node (node_frame L D K)) (on_ft_node m)"
  unfolding on_ft_node_def by (rule guarantees_zoom, assumption, simp)

lemma ft_frame_modify [guarantee_intros]:
  "guarantees (via ft_node (node_frame L D K)) (modify_c (\<lambda>s. s\<lparr>ft_election_timeout := t\<rparr>))"
  by (rule guarantees_modify) (simp add: via_def)

text \<open>Only its own timer makes a follower a candidate.\<close>

lemma follower_frame:
  "guarantees (via ft_node (node_frame L D (b = OnElectionTimeout))) (follower_branch ops gen_range now b)"
  unfolding follower_branch_def reset_election_timeout_def
  by (cases b; simp only: select_branch.case; intro guarantee_intros; simp; intro guarantee_intros)

text \<open>The node of a candidate sits two records deep.\<close>

definition ct_node :: "('s, 'r) candidate_task \<Rightarrow> ('s, 'r) raft_node" where
  "ct_node t = vs_node (ct_session t)"

lemma ct_node_upd [simp]:
  "ct_node (t\<lparr>ct_election_timeout := x\<rparr>) = ct_node t"
  "ct_node (t\<lparr>ct_retry_timeout := x\<rparr>) = ct_node t"
  "ct_node (t\<lparr>ct_session := v\<rparr>) = vs_node v"
  by (simp_all add: ct_node_def)

lemma guarantees_ct_zoom:
  "guarantees (via vs_node (node_frame L D K)) k \<Longrightarrow>
     guarantees (via ct_node (node_frame L D K)) (zoom_c ct_session (\<lambda>v t. t\<lparr>ct_session := v\<rparr>) k)"
  by (auto simp: guarantees_def zoom_c_def via_def ct_node_def split: prod.splits) (metis snd_conv)

lemma ct_frame_lift [guarantee_intros]:
  "guarantees (via vs_node (node_frame L D K)) k \<Longrightarrow> guarantees (via ct_node (node_frame L D K)) (on_ct_session k)"
  "guarantees (node_frame L D K) m \<Longrightarrow> guarantees (via ct_node (node_frame L D K)) (on_ct_node m)"
  unfolding on_ct_session_def on_ct_node_def
  by (rule guarantees_ct_zoom, assumption) (rule guarantees_ct_zoom, rule vs_frame_lift)

lemma ct_frame_modify [guarantee_intros]:
  "guarantees (via ct_node (node_frame L D K)) (modify_c (\<lambda>s. s\<lparr>ct_retry_timeout := t\<rparr>))"
  "guarantees (via ct_node (node_frame L D K)) (modify_c (\<lambda>s. s\<lparr>ct_election_timeout := t\<rparr>))"
  "guarantees (via ct_node (node_frame L D K)) (spawn_request_votes now)"
  by (rule guarantees_modify, simp add: via_def ct_node_def)+
    (auto simp: guarantees_def spawn_request_votes_def bind_c_def outcome_simps via_def ct_node_def
      split: outcome.split)

text \<open>Only an announced result makes a candidate leader.\<close>

lemma vote_result_frame:
  "node_frame (ch_queue (vs_vote_result (ct_session t)) \<noteq> []) D K (ct_node t)
     (ct_node (snd (candidate_branch ops gen_range now OnVoteResult t)))"
proof (cases "ch_queue (vs_vote_result (ct_session t))")
  case Nil
  then show ?thesis
    by (simp add: candidate_branch_def recv_some_def on_ct_session_def on_vote_result_def
        channel_recv_def bind_c_def outcome_simps)
next
  case (Cons r rs)
  have "guarantees (via ct_node (node_frame True D K))
      (candidate_branch ops gen_range now OnVoteResult)"
    unfolding candidate_branch_def select_branch.case by (intro guarantee_intros)
  from guarantees_at [OF this, of t] Cons show ?thesis by (simp add: via_def)
qed

text \<open>The election-timeout branch starts a new session exactly when both timers could be reset.\<close>

definition session_restarts ::
    "(u64 \<Rightarrow> u64 \<Rightarrow> u64) \<Rightarrow> instant \<Rightarrow> select_branch \<Rightarrow> ('s, 'r) candidate_task \<Rightarrow> bool" where
  "session_restarts gen_range now b t \<longleftrightarrow>
     b = OnElectionTimeout \<and> is_ok (timeout_reset gen_range now (ct_election_timeout t))
       \<and> is_ok (timeout_reset gen_range now (ct_retry_timeout t))"

lemma election_timeout_node:
  "ct_node (snd (candidate_branch ops gen_range now OnElectionTimeout t)) =
     (if session_restarts gen_range now OnElectionTimeout t
      then vs_node (vote_session_initialize (ct_node t)) else ct_node t)"
proof -
  have spawn: "spawn_request_votes now s = (r, s1) \<Longrightarrow> ct_node s1 = ct_node s"
    for s s1 :: "('a, 'b) candidate_task" and r
    by (auto simp: spawn_request_votes_def bind_c_def outcome_simps ct_node_def
        split: outcome.splits)
  show ?thesis
    by (auto simp: candidate_branch_def session_restarts_def bind_c_def outcome_simps
        ct_node_def [symmetric] dest!: spawn split: outcome.split prod.split)
qed

text \<open>
  A new vote session is the only way a candidate's own turn can change its term, and the only way
  it can lower it: by wrapping it.
\<close>

lemma candidate_frame:
  "node_frame (b = OnVoteResult \<and> ch_queue (vs_vote_result (ct_session t)) \<noteq> [])
     (session_restarts gen_range now b t \<and> nd_current_term (ct_node t) = - 1)
     (session_restarts gen_range now b t)
     (ct_node t) (ct_node (snd (candidate_branch ops gen_range now b t)))"
proof -
  have other: "guarantees (via ct_node (node_frame False False False)) (candidate_branch ops gen_range now b)"
    if "b \<noteq> OnVoteResult" "b \<noteq> OnElectionTimeout"
    using that unfolding candidate_branch_def
    by (cases b; simp only: select_branch.case; intro guarantee_intros; simp)
  consider "b = OnVoteResult" | "b = OnElectionTimeout" | "b \<noteq> OnVoteResult" "b \<noteq> OnElectionTimeout"
    by blast
  then show ?thesis
  proof cases
    case 1
    with vote_result_frame [of t False False ops gen_range now] show ?thesis
      by (auto intro: node_frame_weaken)
  next
    case 2
    with initialize_frame [of False "ct_node t"] show ?thesis
      by (auto simp: election_timeout_node intro: node_frame_weaken)
  next
    case 3
    from guarantees_at [OF other [OF 3], of t] show ?thesis
      by (auto simp: via_def intro: node_frame_weaken)
  qed
qed

definition lt_node :: "('s, 'r) leader_task \<Rightarrow> ('s, 'r) raft_node" where
  "lt_node t = rs_node (lt_session t)"

lemma lt_frame_lift [guarantee_intros]:
  "guarantees (node_frame L D K) m \<Longrightarrow> guarantees (via lt_node (node_frame L D K)) (on_lt_node m)"
  by (auto simp: guarantees_def on_lt_node_def on_rs_node_def zoom_c_def via_def lt_node_def
      split: prod.splits) (metis snd_conv)

lemma lt_frame_modify [guarantee_intros]:
  "guarantees (via lt_node (node_frame L D K)) (modify_c (\<lambda>s. s\<lparr>lt_heartbeat_timeout := t\<rparr>))"
  "guarantees (via lt_node (node_frame L D K)) (spawn_heartbeats now)"
  by (rule guarantees_modify, simp add: via_def lt_node_def)
    (auto simp: guarantees_def spawn_heartbeats_def bind_c_def outcome_simps via_def lt_node_def
      split: outcome.split)

lemma leader_frame:
  "guarantees (via lt_node (node_frame L D K)) (leader_branch ops gen_range now b)"
  unfolding leader_branch_def
  by (cases b; simp only: select_branch.case; intro guarantee_intros)

text \<open>In every role the RPC branch does to the node what \<open>rpc_branch\<close> does.\<close>

lemma rpc_branch_node:
  "is_ok (fst (rpc_branch ops now (ft_node ft) :: 'p reply outcome \<times> _)) \<Longrightarrow>
     ft_node (snd (follower_branch ops gen_range now OnRpc ft :: 'p reply outcome \<times> _))
       = snd (rpc_branch ops now (ft_node ft) :: 'p reply outcome \<times> _)"
  "ct_node (snd (candidate_branch ops gen_range now OnRpc ct :: 'p reply outcome \<times> _))
     = snd (rpc_branch ops now (ct_node ct) :: 'p reply outcome \<times> _)"
  "lt_node (snd (leader_branch ops gen_range now OnRpc lt :: 'p reply outcome \<times> _))
     = snd (rpc_branch ops now (lt_node lt) :: 'p reply outcome \<times> _)"
  by (auto simp: follower_branch_def candidate_branch_def leader_branch_def on_ft_node_def
      on_ct_node_def on_vs_node_def on_lt_node_def on_rs_node_def zoom_c_def ct_node_def lt_node_def
      reset_election_timeout_def bind_c_def outcome_simps
      split: prod.splits outcome.splits elim!: is_okE)

end
