(* ===== verification/Node_System.thy ===== *)
theory Node_System
  imports Roles
begin

text \<open>
  A node as a state machine: the main loop of \<open>RaftNode::start\<close> (\<open>src/node.rs\<close>) running one role
  after the other, beside the tasks the roles have spawned and the outside that holds the other
  ends of the channels. A step is one turn of the main loop or one atomic step of a spawned task;
  the scheduler may order them in any way.

  The tasks of a vote or replication session that the current role started share its session
  record. Tasks of earlier sessions may still be running; all that is left of such a session is
  its effect on the node, so its step is the step of any session over the present node. The
  membership never changes after the node is built, so \<open>peers_len\<close>, which a task reads when it
  starts, is read here when it is used.

  Each step is labelled with what happened, in particular with the votes it cast.
\<close>

section \<open>The main loop\<close>

datatype ('s, 'r) main_task =
    Dispatching "('s, 'r) raft_node"
  | FollowerLoop "('s, 'r) follower_task"
  | FollowerSelect "('s, 'r) follower_task"
  | CandidateLoop "('s, 'r) candidate_task"
  | CandidateSelect "('s, 'r) candidate_task"
  | LeaderLoop "('s, 'r) leader_task"
  | LeaderSelect "('s, 'r) leader_task"
  | Ended "('s, 'r) raft_node"

fun main_node :: "('s, 'r) main_task \<Rightarrow> ('s, 'r) raft_node" where
  "main_node (Dispatching n) = n"
| "main_node (FollowerLoop t) = ft_node t"
| "main_node (FollowerSelect t) = ft_node t"
| "main_node (CandidateLoop t) = ct_node t"
| "main_node (CandidateSelect t) = ct_node t"
| "main_node (LeaderLoop t) = lt_node t"
| "main_node (LeaderSelect t) = lt_node t"
| "main_node (Ended n) = n"

definition ct_put_node :: "('s, 'r) raft_node \<Rightarrow> ('s, 'r) candidate_task \<Rightarrow> ('s, 'r) candidate_task" where
  "ct_put_node n t = t\<lparr>ct_session := (ct_session t)\<lparr>vs_node := n\<rparr>\<rparr>"

definition lt_put_node :: "('s, 'r) raft_node \<Rightarrow> ('s, 'r) leader_task \<Rightarrow> ('s, 'r) leader_task" where
  "lt_put_node n t = t\<lparr>lt_session := (lt_session t)\<lparr>rs_node := n\<rparr>\<rparr>"

fun put_node :: "('s, 'r) raft_node \<Rightarrow> ('s, 'r) main_task \<Rightarrow> ('s, 'r) main_task" where
  "put_node n (Dispatching _) = Dispatching n"
| "put_node n (FollowerLoop t) = FollowerLoop (t\<lparr>ft_node := n\<rparr>)"
| "put_node n (FollowerSelect t) = FollowerSelect (t\<lparr>ft_node := n\<rparr>)"
| "put_node n (CandidateLoop t) = CandidateLoop (ct_put_node n t)"
| "put_node n (CandidateSelect t) = CandidateSelect (ct_put_node n t)"
| "put_node n (LeaderLoop t) = LeaderLoop (lt_put_node n t)"
| "put_node n (LeaderSelect t) = LeaderSelect (lt_put_node n t)"
| "put_node n (Ended _) = Ended n"

lemma main_node_put [simp]: "main_node (put_node n M) = n"
  by (cases M) (simp_all add: ct_put_node_def ct_node_def lt_put_node_def lt_node_def)

section \<open>Votes\<close>

type_synonym vote = "u64 \<times> node_id"

text \<open>The vote a new session casts for its own node, in the term the session runs in.\<close>

definition self_vote :: "('s, 'r) raft_node \<Rightarrow> vote" where
  "self_vote n = (nd_current_term n + 1, nd_id n)"

text \<open>The vote request an RPC branch answered, with the answer it sent.\<close>

definition answer_sent ::
    "('s, 'r) raft_node \<Rightarrow> unit reply \<Rightarrow> (request_vote_request \<times> request_vote_response) option" where
  "answer_sent n reply =
     (case reply of
        VoteReply r \<Rightarrow>
          (case ch_queue (in_rpc (nd_channels n)) of RequestVote req _ # _ \<Rightarrow> Some (req, r) | _ \<Rightarrow> None)
      | _ \<Rightarrow> None)"

definition rpc_answer ::
    "('s, 'r) state_ops \<Rightarrow> instant \<Rightarrow> select_branch \<Rightarrow> ('s, 'r) raft_node
       \<Rightarrow> (request_vote_request \<times> request_vote_response) option" where
  "rpc_answer ops now b n =
     (if b = OnRpc then
        (case rpc_branch ops now n of (Ok reply, _) \<Rightarrow> answer_sent n reply | _ \<Rightarrow> None)
      else None)"

definition vote_in :: "(request_vote_request \<times> request_vote_response) option \<Rightarrow> vote list" where
  "vote_in answer =
     (case answer of
        None \<Rightarrow> []
      | Some (req, r) \<Rightarrow> if rvr_vote_granted r then [(rv_term req, rv_candidate_id req)] else [])"

definition rpc_votes :: "('s, 'r) state_ops \<Rightarrow> instant \<Rightarrow> select_branch \<Rightarrow> ('s, 'r) raft_node \<Rightarrow> vote list" where
  "rpc_votes ops now b n = vote_in (rpc_answer ops now b n)"

section \<open>One turn of the main loop\<close>

text \<open>\<open>?\<close> and a panic end the task; a branch that is not ready leaves the \<open>select!\<close> waiting.\<close>

definition after_branch ::
    "('a outcome \<times> 't) \<Rightarrow> ('t \<Rightarrow> ('s, 'r) main_task) \<Rightarrow> ('t \<Rightarrow> ('s, 'r) main_task)
       \<Rightarrow> ('t \<Rightarrow> ('s, 'r) raft_node) \<Rightarrow> ('s, 'r) main_task" where
  "after_branch res loop select node =
     (case res of
        (Ok _, t) \<Rightarrow> loop t
      | (Blocked, t) \<Rightarrow> select t
      | (_, t) \<Rightarrow> Ended (node t))"

definition run_role ::
    "profile \<Rightarrow> ('s, 'r) state_ops \<Rightarrow> (u64 \<Rightarrow> u64 \<Rightarrow> u64) \<Rightarrow> instant \<Rightarrow> ('s, 'r) raft_node
       \<Rightarrow> vote list \<times> ('s, 'r) main_task" where
  "run_role pr ops gen_range now n =
     (case node_dispatch n of
        Ok RunFollower \<Rightarrow>
          (case follower_start gen_range now n of Ok t \<Rightarrow> ([], FollowerLoop t) | _ \<Rightarrow> ([], Ended n))
      | Ok RunCandidate \<Rightarrow>
          (case candidate_start gen_range now n of
             (Ok _, Some t) \<Rightarrow> ([self_vote n], CandidateLoop t)
           | (_, Some t) \<Rightarrow> ([self_vote n], Ended (ct_node t))
           | (_, None) \<Rightarrow> ([], Ended n))
      | Ok RunLeader \<Rightarrow>
          (case leader_start pr ops now n of
             (Ok _, Some t) \<Rightarrow> ([], LeaderLoop t)
           | (_, Some t) \<Rightarrow> ([], Ended (lt_node t))
           | (_, None) \<Rightarrow> ([], Ended n))
      | _ \<Rightarrow> ([], Ended n))"

text \<open>
  \<open>b\<close> is the branch the \<open>select!\<close> picks when the loop waits in one, and \<open>now\<close> the clock. A timer
  is ready once its deadline has passed.
\<close>

definition timer_ready :: "instant \<Rightarrow> select_branch \<Rightarrow> (select_branch \<times> timeout) list \<Rightarrow> bool" where
  "timer_ready now b timers =
     (case map_of timers b of None \<Rightarrow> True | Some t \<Rightarrow> deadline t \<le> now)"

fun main_turn ::
    "profile \<Rightarrow> ('s, 'r) state_ops \<Rightarrow> (u64 \<Rightarrow> u64 \<Rightarrow> u64) \<Rightarrow> instant \<Rightarrow> select_branch
       \<Rightarrow> ('s, 'r) main_task \<Rightarrow> vote list \<times> ('s, 'r) main_task" where
  "main_turn pr ops gen_range now b (Dispatching n) = run_role pr ops gen_range now n"
| "main_turn pr ops gen_range now b (FollowerLoop t) =
     (case follower_enter now t of
        Ok None \<Rightarrow> ([], Dispatching (ft_node t))
      | Ok (Some _) \<Rightarrow> ([], FollowerSelect t)
      | _ \<Rightarrow> ([], Ended (ft_node t)))"
| "main_turn pr ops gen_range now b (FollowerSelect t) =
     (if timer_ready now b [(OnElectionTimeout, ft_election_timeout t)] then
        (rpc_votes ops now b (ft_node t),
         after_branch (follower_branch ops gen_range now b t :: unit reply outcome \<times> _)
           FollowerLoop FollowerSelect ft_node)
      else ([], FollowerSelect t))"
| "main_turn pr ops gen_range now b (CandidateLoop t) =
     (case candidate_enter now t of
        Ok None \<Rightarrow> ([], Dispatching (ct_node t))
      | Ok (Some _) \<Rightarrow> ([], CandidateSelect t)
      | _ \<Rightarrow> ([], Ended (ct_node t)))"
| "main_turn pr ops gen_range now b (CandidateSelect t) =
     (if timer_ready now b [(OnElectionTimeout, ct_election_timeout t),
                            (OnRetryTimeout, ct_retry_timeout t)] then
        (if session_restarts gen_range now b t then [self_vote (ct_node t)]
         else rpc_votes ops now b (ct_node t),
         after_branch (candidate_branch ops gen_range now b t :: unit reply outcome \<times> _)
           CandidateLoop CandidateSelect ct_node)
      else ([], CandidateSelect t))"
| "main_turn pr ops gen_range now b (LeaderLoop t) =
     (case leader_enter now t of
        (Ok None, t) \<Rightarrow> ([], Dispatching (lt_node t))
      | (Ok (Some _), t) \<Rightarrow> ([], LeaderSelect t)
      | (_, t) \<Rightarrow> ([], Ended (lt_node t)))"
| "main_turn pr ops gen_range now b (LeaderSelect t) =
     (if timer_ready now b [(OnHeartbeatTimeout, lt_heartbeat_timeout t)] then
        (rpc_votes ops now b (lt_node t),
         after_branch (leader_branch ops gen_range now b t :: unit reply outcome \<times> _)
           LeaderLoop LeaderSelect lt_node)
      else ([], LeaderSelect t))"
| "main_turn pr ops gen_range now b (Ended n) = ([], Ended n)"

section \<open>Steps\<close>

datatype step_label =
    Turn "vote list"
  | VoteAnswer request_vote_response
  | AppendAnswer append_entries_response
  | TaskSends
  | Outside

fun votes_of :: "step_label \<Rightarrow> vote list" where
  "votes_of (Turn vs) = vs"
| "votes_of _ = []"

text \<open>The session records of the role that is running.\<close>

fun vote_session_of :: "('s, 'r) main_task \<Rightarrow> ('s, 'r) vote_session option" where
  "vote_session_of (CandidateLoop t) = Some (ct_session t)"
| "vote_session_of (CandidateSelect t) = Some (ct_session t)"
| "vote_session_of _ = None"

fun put_vote_session :: "('s, 'r) vote_session \<Rightarrow> ('s, 'r) main_task \<Rightarrow> ('s, 'r) main_task" where
  "put_vote_session v (CandidateLoop t) = CandidateLoop (t\<lparr>ct_session := v\<rparr>)"
| "put_vote_session v (CandidateSelect t) = CandidateSelect (t\<lparr>ct_session := v\<rparr>)"
| "put_vote_session v M = put_node (vs_node v) M"

fun replication_session_of :: "('s, 'r) main_task \<Rightarrow> ('s, 'r) replication_session option" where
  "replication_session_of (LeaderLoop t) = Some (lt_session t)"
| "replication_session_of (LeaderSelect t) = Some (lt_session t)"
| "replication_session_of _ = None"

fun put_replication_session ::
    "('s, 'r) replication_session \<Rightarrow> ('s, 'r) main_task \<Rightarrow> ('s, 'r) main_task" where
  "put_replication_session v (LeaderLoop t) = LeaderLoop (t\<lparr>lt_session := v\<rparr>)"
| "put_replication_session v (LeaderSelect t) = LeaderSelect (t\<lparr>lt_session := v\<rparr>)"
| "put_replication_session v M = put_node (rs_node v) M"

text \<open>
  A task of a session: the running role's own, or one left over from an earlier role, whose
  record only the task itself still sees.
\<close>

definition in_vote_session ::
    "('s, 'r) vote_session \<Rightarrow> (('s, 'r) vote_session \<Rightarrow> ('s, 'r) main_task) \<Rightarrow> ('s, 'r) main_task \<Rightarrow> bool" where
  "in_vote_session v put M \<longleftrightarrow>
     vote_session_of M = Some v \<and> put = (\<lambda>v'. put_vote_session v' M) \<or>
     vs_node v = main_node M \<and> put = (\<lambda>v'. put_node (vs_node v') M)"

definition in_replication_session ::
    "('s, 'r) replication_session \<Rightarrow> (('s, 'r) replication_session \<Rightarrow> ('s, 'r) main_task)
       \<Rightarrow> ('s, 'r) main_task \<Rightarrow> bool" where
  "in_replication_session v put M \<longleftrightarrow>
     replication_session_of M = Some v \<and> put = (\<lambda>v'. put_replication_session v' M) \<or>
     rs_node v = main_node M \<and> put = (\<lambda>v'. put_node (rs_node v') M)"

inductive node_step ::
    "profile \<Rightarrow> ('s, 'r) state_ops \<Rightarrow> (u64 \<Rightarrow> u64 \<Rightarrow> u64)
       \<Rightarrow> ('s, 'r) main_task \<Rightarrow> step_label \<Rightarrow> ('s, 'r) main_task \<Rightarrow> bool"
  for pr ops gen_range where
  turn: "main_turn pr ops gen_range now b M = (vs, M') \<Longrightarrow> node_step pr ops gen_range M (Turn vs) M'"
| ask_peers: "in_vote_session v put M \<Longrightarrow> get_unack_peers ops v = (r, v') \<Longrightarrow>
    node_step pr ops gen_range M TaskSends (put v')"
| send_vote_request: "emit_request_vote ops peer (main_node M) = (r, n') \<Longrightarrow>
    node_step pr ops gen_range M TaskSends (put_node n' M)"
| vote_answer: "in_vote_session v put M \<Longrightarrow>
    on_vote_response ops (length (get_membership ops (nd_state (vs_node v)))) response v = (r, v') \<Longrightarrow>
    node_step pr ops gen_range M (VoteAnswer response) (put v')"
| heartbeats: "in_replication_session v put M \<Longrightarrow> send_heartbeat_to_peers ops v = (r, v') \<Longrightarrow>
    node_step pr ops gen_range M TaskSends (put v')"
| heartbeat_answer: "in_replication_session v put M \<Longrightarrow>
    on_heartbeat_response pr ops response v = (r, v') \<Longrightarrow>
    node_step pr ops gen_range M (AppendAnswer response) (put v')"
| update_peer: "in_replication_session v put M \<Longrightarrow>
    update_peer_turn pr ops peer reply rx stopped v = (r, v') \<Longrightarrow>
    node_step pr ops gen_range M TaskSends (put v')"
| standby_answer: "in_replication_session v put M \<Longrightarrow>
    on_standby_response pr ops response v = (r, v') \<Longrightarrow>
    node_step pr ops gen_range M (AppendAnswer response) (put v')"
| shut_down: "node_shutdown (main_node M) = (r, n') \<Longrightarrow>
    node_step pr ops gen_range M Outside (put_node n' M)"
| outside: "node_step pr ops gen_range M Outside (put_node ((main_node M)\<lparr>nd_channels := ch\<rparr>) M)"

inductive_simps turn_step: "node_step pr ops gen_range M (Turn vs) M'"

text \<open>
  A run, with the votes it cast, oldest first. \<open>keep\<close> is a condition on every step of the run,
  as a relation between the node before it and after it.
\<close>

inductive node_run ::
    "profile \<Rightarrow> ('s, 'r) state_ops \<Rightarrow> (u64 \<Rightarrow> u64 \<Rightarrow> u64)
       \<Rightarrow> (('s, 'r) raft_node \<Rightarrow> ('s, 'r) raft_node \<Rightarrow> bool)
       \<Rightarrow> ('s, 'r) main_task \<Rightarrow> vote list \<Rightarrow> ('s, 'r) main_task \<Rightarrow> bool"
  for pr ops gen_range keep M0 where
  start: "node_run pr ops gen_range keep M0 [] M0"
| step: "node_run pr ops gen_range keep M0 vs M \<Longrightarrow> node_step pr ops gen_range M l M' \<Longrightarrow>
    keep (main_node M) (main_node M') \<Longrightarrow> node_run pr ops gen_range keep M0 (vs @ votes_of l) M'"

definition any_step :: "('s, 'r) raft_node \<Rightarrow> ('s, 'r) raft_node \<Rightarrow> bool" where
  "any_step n n' = True"

text \<open>Steps that do not lower the term.\<close>

definition term_kept :: "('s, 'r) raft_node \<Rightarrow> ('s, 'r) raft_node \<Rightarrow> bool" where
  "term_kept n n' \<longleftrightarrow> nd_current_term n \<le> nd_current_term n'"

section \<open>What a step does to the node\<close>

lemma session_of_node:
  "vote_session_of M = Some v \<Longrightarrow> main_node M = vs_node v"
  "replication_session_of M = Some s \<Longrightarrow> main_node M = rs_node s"
  by (auto simp: ct_node_def lt_node_def elim: vote_session_of.elims replication_session_of.elims)

lemma main_node_put_session [simp]:
  "main_node (put_vote_session v' M) = vs_node v'"
  "main_node (put_replication_session s' M) = rs_node s'"
proof -
  show "main_node (put_vote_session v' M) = vs_node v'"
    by (cases M) (simp_all add: ct_node_def lt_node_def lt_put_node_def)
  show "main_node (put_replication_session s' M) = rs_node s'"
    by (cases M) (simp_all add: lt_node_def ct_node_def ct_put_node_def)
qed

lemma in_session_node:
  "in_vote_session v put M \<Longrightarrow> main_node M = vs_node v \<and> (\<forall>v'. main_node (put v') = vs_node v')"
  "in_replication_session s put' M \<Longrightarrow> main_node M = rs_node s \<and> (\<forall>s'. main_node (put' s') = rs_node s')"
  by (auto simp: in_vote_session_def in_replication_session_def session_of_node)

lemma after_branch_node:
  assumes "\<And>t. main_node (loop t) = node t" and "\<And>t. main_node (select t) = node t"
  shows "main_node (after_branch res loop select node) = node (snd res)"
  using assms by (auto simp: after_branch_def split: prod.split outcome.split)

lemma role_start_node:
  "follower_start gen_range now n = Ok ft \<Longrightarrow> ft_node ft = n"
  "candidate_start gen_range now n = (r, Some ct) \<Longrightarrow>
     ct_node ct = vs_node (vote_session_initialize n)"
  "leader_start pr ops now n = (r', Some lt) \<Longrightarrow> lt_node lt = n"
proof -
  show "follower_start gen_range now n = Ok ft \<Longrightarrow> ft_node ft = n"
    by (auto simp: follower_start_def new_election_timeout_def start_range_def split: prod.splits if_splits)
  show "candidate_start gen_range now n = (r, Some ct) \<Longrightarrow>
      ct_node ct = vs_node (vote_session_initialize n)"
    by (auto simp: candidate_start_def spawn_request_votes_def bind_c_def outcome_simps ct_node_def
        split: outcome.splits prod.splits)
  show "leader_start pr ops now n = (r', Some lt) \<Longrightarrow> lt_node lt = n"
    by (auto simp: leader_start_def spawn_heartbeats_def bind_c_def outcome_simps lt_node_def
        initialize_session split: outcome.splits prod.splits)
qed

lemma candidate_start_session:
  "candidate_start gen_range now n = (r, Some t) \<Longrightarrow> ct_session t = vote_session_initialize n"
  by (auto simp: candidate_start_def spawn_request_votes_def bind_c_def outcome_simps
      split: outcome.splits prod.splits)

text \<open>Starting the next role leaves the node alone, except that a candidate opens a session.\<close>

lemma run_role_node:
  assumes "run_role pr ops gen_range now n = (vs, M')"
  shows "vs = [] \<and> main_node M' = n \<or>
    vs = [self_vote n] \<and> main_node M' = vs_node (vote_session_initialize n)"
  using assms unfolding run_role_def
  by (auto simp: role_start_node dest: role_start_node
      split: outcome.splits next_role.splits prod.splits option.splits)

text \<open>The branch that picks up a vote result is the only one that can promote the node.\<close>

definition result_waiting :: "('s, 'r) main_task \<Rightarrow> bool" where
  "result_waiting M \<longleftrightarrow>
     (case M of CandidateSelect t \<Rightarrow> ch_queue (vs_vote_result (ct_session t)) \<noteq> [] | _ \<Rightarrow> False)"

definition wraps :: "vote list \<Rightarrow> ('s, 'r) raft_node \<Rightarrow> bool" where
  "wraps vs n \<longleftrightarrow> vs = [self_vote n] \<and> nd_current_term n = - 1"

text \<open>The turns that open a vote session, and those that may make the node a candidate.\<close>

fun opens_session ::
    "(u64 \<Rightarrow> u64 \<Rightarrow> u64) \<Rightarrow> instant \<Rightarrow> select_branch \<Rightarrow> ('s, 'r) main_task \<Rightarrow> bool" where
  "opens_session gen_range now b (Dispatching n) =
     (nd_current_state n = Candidate \<and> snd (candidate_start gen_range now n) \<noteq> None)"
| "opens_session gen_range now b (CandidateSelect t) =
     (timer_ready now b [(OnElectionTimeout, ct_election_timeout t),
                         (OnRetryTimeout, ct_retry_timeout t)] \<and> session_restarts gen_range now b t)"
| "opens_session gen_range now b _ = False"

fun may_stand ::
    "(u64 \<Rightarrow> u64 \<Rightarrow> u64) \<Rightarrow> instant \<Rightarrow> select_branch \<Rightarrow> ('s, 'r) main_task \<Rightarrow> bool" where
  "may_stand gen_range now b (FollowerSelect t) = (b = OnElectionTimeout)"
| "may_stand gen_range now b M = opens_session gen_range now b M"

lemma run_role_session:
  assumes "run_role pr ops gen_range now n = (vs, M')"
  shows "main_node M' = (if opens_session gen_range now b (Dispatching n)
      then vs_node (vote_session_initialize n) else n) \<and>
    vs = (if opens_session gen_range now b (Dispatching n) then [self_vote n] else []) \<and>
    (opens_session gen_range now b (Dispatching n) \<longrightarrow>
       vote_session_of M' = None \<or> vote_session_of M' = Some (vote_session_initialize n)) \<and>
    (\<not> opens_session gen_range now b (Dispatching n) \<longrightarrow> vote_session_of M' = None)"
proof (cases "nd_current_state n")
  case Candidate
  obtain r t where start: "candidate_start gen_range now n = (r, t)" by force
  show ?thesis
  proof (cases t)
    case None
    with assms Candidate start show ?thesis
      by (cases r) (auto simp: run_role_def node_dispatch_def)
  next
    case (Some ct)
    with start have "ct_node ct = vs_node (vote_session_initialize n)"
      "ct_session ct = vote_session_initialize n"
      by (simp_all add: role_start_node candidate_start_session)
    with assms Candidate start Some show ?thesis
      by (cases r) (auto simp: run_role_def node_dispatch_def)
  qed
next
  case Leader
  then show ?thesis
    using assms role_start_node(3) [of pr ops now n]
    by (auto simp: run_role_def node_dispatch_def split: outcome.splits prod.splits option.splits)
next
  case Follower
  then show ?thesis
    using assms role_start_node(1) [of gen_range now n]
    by (auto simp: run_role_def node_dispatch_def split: outcome.splits)
qed (use assms in \<open>auto simp: run_role_def node_dispatch_def\<close>)

lemma main_turn_frame:
  assumes "main_turn pr ops gen_range now b M = (vs, M')"
  shows "node_frame (result_waiting M) (wraps vs (main_node M)) (may_stand gen_range now b M)
    (main_node M) (main_node M')"
proof (cases M)
  case (Dispatching n)
  with assms have "run_role pr ops gen_range now n = (vs, M')" by simp
  note turn = run_role_session [OF this, of b]
  show ?thesis
  proof (cases "opens_session gen_range now b (Dispatching n)")
    case True
    have "node_frame (result_waiting M) (wraps vs n) True n (vs_node (vote_session_initialize n))"
      by (rule node_frame_weaken [OF initialize_frame [of False n]])
        (use turn True in \<open>simp_all add: wraps_def\<close>)
    then show ?thesis using turn True Dispatching by (simp del: opens_session.simps)
  qed (use turn Dispatching in \<open>simp del: opens_session.simps\<close>)
next
  case (FollowerSelect t)
  with assms have "M' = FollowerSelect t \<or> main_node M' =
      ft_node (snd (follower_branch ops gen_range now b t :: unit reply outcome \<times> _))"
    by (auto simp: after_branch_node split: if_splits)
  with FollowerSelect guarantees_at [OF follower_frame, of False False b t ops gen_range now]
  show ?thesis by (auto simp: via_def intro: node_frame_weaken)
next
  case (CandidateSelect t)
  with assms have "M' = CandidateSelect t \<or>
      (timer_ready now b [(OnElectionTimeout, ct_election_timeout t), (OnRetryTimeout, ct_retry_timeout t)] \<and>
       main_node M' = ct_node (snd (candidate_branch ops gen_range now b t :: unit reply outcome \<times> _)) \<and>
       (session_restarts gen_range now b t \<longrightarrow> vs = [self_vote (ct_node t)]))"
    by (auto simp: after_branch_node split: if_splits)
  with CandidateSelect candidate_frame [of b t gen_range now ops, where ?'c = unit] show ?thesis
    by (auto simp: result_waiting_def wraps_def intro: node_frame_weaken)
next
  case (LeaderSelect t)
  with assms have "M' = LeaderSelect t \<or> main_node M' =
      lt_node (snd (leader_branch ops gen_range now b t :: unit reply outcome \<times> _))"
    by (auto simp: after_branch_node split: if_splits)
  with LeaderSelect guarantees_at [OF leader_frame, of False False False t ops gen_range now b]
  show ?thesis by (auto simp: via_def intro: node_frame_weaken)
next
  case (LeaderLoop t)
  with assms show ?thesis
    by (auto simp: leader_enter_def lt_node_def split: outcome.splits option.splits if_splits)
qed (use assms in \<open>auto split: outcome.splits option.splits\<close>)

text \<open>The label of an RPC turn names the vote the handler granted.\<close>

lemma rpc_answer_run:
  assumes "rpc_answer ops now b n = Some (req, r)"
  obtains tx n0 n' where "b = OnRpc" "respond_to_request_vote ops req tx n0 = (Ok r, n')"
    "(rpc_branch ops now n :: unit reply outcome \<times> _) = (Ok (VoteReply r), n')"
    "nd_id n0 = nd_id n" "nd_current_term n0 = nd_current_term n" "nd_voted_for n0 = nd_voted_for n"
proof -
  from assms obtain n' tx ms where b: "b = OnRpc"
    and run: "(rpc_branch ops now n :: unit reply outcome \<times> _) = (Ok (VoteReply r), n')"
    and q: "ch_queue (in_rpc (nd_channels n)) = RequestVote req tx # ms"
    by (auto simp: rpc_answer_def answer_sent_def
        split: if_splits outcome.splits prod.splits reply.splits list.splits peer_rpc.splits)
  let ?n = "n\<lparr>nd_channels := (nd_channels n)\<lparr>in_rpc := (in_rpc (nd_channels n))\<lparr>ch_queue := ms\<rparr>\<rparr>\<rparr>"
  from run q have "respond_to_request_vote ops req tx ?n = (Ok r, n')"
    by (auto simp: rpc_branch_def bind_c_eq_Ok [of "recv_some m" for m] recv_some_eq_Ok
        on_in_rpc_eq_Ok channel_recv_Some) (auto simp: bind_c_eq_Ok return_c_def)
  from that [OF b this run] show thesis by simp
qed

lemma rpc_votes_cast:
  assumes "rpc_votes ops now b n = vs" and "vs \<noteq> []"
  obtains t c n' where "b = OnRpc" "vs = [(t, c)]" "nd_current_term n' = t"
    "nd_voted_for n' = Some c" "nd_current_term n = t \<longrightarrow> nd_voted_for n = None"
    "snd (rpc_branch ops now n :: unit reply outcome \<times> _) = n'"
    "is_ok (fst (rpc_branch ops now n :: unit reply outcome \<times> _))"
proof -
  from assms obtain req r where answer: "rpc_answer ops now b n = Some (req, r)"
    and g: "rvr_vote_granted r" and vs: "vs = [(rv_term req, rv_candidate_id req)]"
    by (auto simp: rpc_votes_def vote_in_def split: option.splits if_splits)
  from answer obtain tx n0 n' where b: "b = OnRpc"
    and run: "respond_to_request_vote ops req tx n0 = (Ok r, n')"
    and branch: "(rpc_branch ops now n :: unit reply outcome \<times> _) = (Ok (VoteReply r), n')"
    and same: "nd_current_term n0 = nd_current_term n" "nd_voted_for n0 = nd_voted_for n"
    by (rule rpc_answer_run)
  note granted = vote_granted_state [OF run g]
  show thesis
    by (rule that [OF b vs granted(1,2)]) (use granted(5) branch same in auto)
qed

text \<open>
  A turn casts at most one vote; the node then remembers it for that term, and had not voted in
  that term before.
\<close>

lemma main_turn_votes:
  assumes "main_turn pr ops gen_range now b M = (vs, M')"
  shows "vs = [] \<or> (\<exists>t c. vs = [(t, c)] \<and> nd_current_term (main_node M') = t \<and>
    nd_voted_for (main_node M') = Some c \<and>
    (nd_current_term (main_node M) = t \<longrightarrow> nd_voted_for (main_node M) = None))"
proof (cases "vs = []")
  case False
  show ?thesis
  proof (cases M)
    case (Dispatching n)
    with assms have "run_role pr ops gen_range now n = (vs, M')" by simp
    from run_role_node [OF this] False Dispatching show ?thesis by (auto simp: self_vote_def)
  next
    case (FollowerSelect t)
    with assms False have vs: "rpc_votes ops now b (ft_node t) = vs"
      and M': "main_node M' = ft_node (snd (follower_branch ops gen_range now b t :: unit reply outcome \<times> _))"
      by (auto simp: after_branch_node split: if_splits)
    obtain u c n' where "vs = [(u, c)]" "nd_current_term n' = u"
      "nd_voted_for n' = Some c" "nd_current_term (ft_node t) = u \<longrightarrow> nd_voted_for (ft_node t) = None" and b: "b = OnRpc"
      and n': "snd (rpc_branch ops now (ft_node t) :: unit reply outcome \<times> _) = n'"
      "is_ok (fst (rpc_branch ops now (ft_node t) :: unit reply outcome \<times> _))"
      by (rule rpc_votes_cast [OF vs False])
    moreover have "main_node M' = n'" using M' b n' by (simp add: rpc_branch_node)
    ultimately show ?thesis using FollowerSelect by auto
  next
    case (CandidateSelect t)
    with assms False have vs: "vs = (if session_restarts gen_range now b t then [self_vote (ct_node t)]
          else rpc_votes ops now b (ct_node t))"
      and M': "main_node M' = ct_node (snd (candidate_branch ops gen_range now b t :: unit reply outcome \<times> _))"
      by (auto simp: after_branch_node split: if_splits)
    show ?thesis
    proof (cases "session_restarts gen_range now b t")
      case True
      then have "b = OnElectionTimeout" by (simp add: session_restarts_def)
      with True vs M' CandidateSelect show ?thesis
        by (simp add: election_timeout_node self_vote_def)
    next
      case no: False
      with vs have vs': "rpc_votes ops now b (ct_node t) = vs" by simp
      obtain u c n' where "vs = [(u, c)]" "nd_current_term n' = u"
        "nd_voted_for n' = Some c" "nd_current_term (ct_node t) = u \<longrightarrow> nd_voted_for (ct_node t) = None" and b: "b = OnRpc"
        and n': "snd (rpc_branch ops now (ct_node t) :: unit reply outcome \<times> _) = n'"
        "is_ok (fst (rpc_branch ops now (ct_node t) :: unit reply outcome \<times> _))"
        by (rule rpc_votes_cast [OF vs' False])
      moreover have "main_node M' = n'" using M' b n' by (simp add: rpc_branch_node)
      ultimately show ?thesis using CandidateSelect by auto
    qed
  next
    case (LeaderSelect t)
    with assms False have vs: "rpc_votes ops now b (lt_node t) = vs"
      and M': "main_node M' = lt_node (snd (leader_branch ops gen_range now b t :: unit reply outcome \<times> _))"
      by (auto simp: after_branch_node split: if_splits)
    obtain u c n' where "vs = [(u, c)]" "nd_current_term n' = u"
      "nd_voted_for n' = Some c" "nd_current_term (lt_node t) = u \<longrightarrow> nd_voted_for (lt_node t) = None" and b: "b = OnRpc"
      and n': "snd (rpc_branch ops now (lt_node t) :: unit reply outcome \<times> _) = n'"
      "is_ok (fst (rpc_branch ops now (lt_node t) :: unit reply outcome \<times> _))"
      by (rule rpc_votes_cast [OF vs False])
    moreover have "main_node M' = n'" using M' b n' by (simp add: rpc_branch_node)
    ultimately show ?thesis using LeaderSelect by auto
  qed (use assms False in \<open>auto split: outcome.splits option.splits prod.splits\<close>)
qed simp

fun may_drop :: "step_label \<Rightarrow> ('s, 'r) raft_node \<Rightarrow> bool" where
  "may_drop (Turn vs) n = wraps vs n"
| "may_drop (VoteAnswer r) n = (steps_down r \<and> rvr_term r < nd_current_term n)"
| "may_drop (AppendAnswer r) n = leader_stale r n"
| "may_drop TaskSends n = False"
| "may_drop Outside n = False"

fun is_turn :: "step_label \<Rightarrow> bool" where
  "is_turn (Turn vs) = True"
| "is_turn _ = False"

lemma unack_frame: "guarantees (via vs_node (node_frame L D K)) (get_unack_peers ops)"
proof (rule guaranteesI)
  fix v :: "('a, 'b) vote_session"
  have "via vs_node (node_frame L D K) v
      (snd (then_c (on_vote_result (channel_send NoPeers)) (return_c (None :: node_id set option)) v))"
    by (rule guarantees_at) (intro guarantee_intros)
  then show "via vs_node (node_frame L D K) v (snd (get_unack_peers ops v))"
    by (simp add: get_unack_peers_def Let_def) (simp add: via_def)
qed

lemma node_step_frame:
  assumes "node_step pr ops gen_range M l M'"
  shows "node_frame (result_waiting M \<and> is_turn l) (may_drop l (main_node M)) (is_turn l)
    (main_node M) (main_node M')"
  using assms
proof cases
  case (turn now b vs)
  with main_turn_frame [OF turn(2)] show ?thesis by (auto intro: node_frame_weaken)
next
  case (ask_peers v put r v')
  with guarantees_at [OF unack_frame, of False False False v ops] in_session_node(1) [OF ask_peers(3)]
  show ?thesis by (auto simp: via_def intro: node_frame_weaken)
next
  case (send_vote_request peer r n')
  with guarantees_at [OF node_frame_emit(1), of False False False "main_node M" ops peer] show ?thesis
    by (auto intro: node_frame_weaken)
next
  case (vote_answer v put response r v')
  with vs_frame_response [of False response v False ops "length (get_membership ops (nd_state (vs_node v)))"]
    in_session_node(1) [OF vote_answer(3)]
  show ?thesis by (auto intro: node_frame_weaken)
next
  case (heartbeats v put r v')
  with guarantees_at [OF rs_frame_heartbeats, of False False False v ops] in_session_node(2) [OF heartbeats(3)]
  show ?thesis by (auto simp: via_def intro: node_frame_weaken)
next
  case (heartbeat_answer v put response r v')
  with rs_frame_responses(1) [of False response v False pr ops] in_session_node(2) [OF heartbeat_answer(3)]
  show ?thesis by (auto intro: node_frame_weaken)
next
  case (update_peer v put peer reply rx stopped r v')
  with guarantees_at [OF rs_frame_compose(2), of False False False v pr ops peer reply rx stopped]
    in_session_node(2) [OF update_peer(3)]
  show ?thesis by (auto simp: via_def intro: node_frame_weaken)
next
  case (standby_answer v put response r v')
  with rs_frame_responses(2) [of False response v False pr ops] in_session_node(2) [OF standby_answer(3)]
  show ?thesis by (auto intro: node_frame_weaken)
next
  case (shut_down r n')
  with guarantees_at [OF node_frame_emit(4), of False False False "main_node M"] show ?thesis
    by (auto intro: node_frame_weaken)
next
  case (outside ch)
  then show ?thesis by simp
qed

lemma node_step_votes:
  assumes "node_step pr ops gen_range M l M'" and "votes_of l \<noteq> []"
  obtains t c where "votes_of l = [(t, c)]" "nd_current_term (main_node M') = t"
    "nd_voted_for (main_node M') = Some c"
    "nd_current_term (main_node M) = t \<longrightarrow> nd_voted_for (main_node M) = None"
proof -
  from assms obtain now b vs where "main_turn pr ops gen_range now b M = (vs, M')" "votes_of l = vs"
    by (cases l) (auto simp: turn_step)
  from main_turn_votes [OF this(1)] this(2) assms(2) show thesis
    using that by auto
qed

section \<open>What a run keeps\<close>

lemma node_run_frame:
  assumes "node_run pr ops gen_range keep M0 vs M"
  shows "node_frame True True True (main_node M0) (main_node M)"
  using assms
proof induction
  case (step vs M l M')
  have "node_frame True True True (main_node M) (main_node M')"
    by (rule node_frame_weaken [OF node_step_frame [OF step(2)]]) simp_all
  with step.IH show ?case by (meson node_frame_preorder(2) transpE)
qed simp

lemma dispatch_panics: "node_dispatch n = Panicked p \<Longrightarrow> nd_current_state n = NonVoter"
  by (auto simp: node_dispatch_def split: task_state.splits)

text \<open>
  The votes a node has cast: one per term, none above the present term, and one in the present
  term only if the node still remembers a vote.
\<close>

definition votes_ok :: "vote list \<Rightarrow> ('s, 'r) raft_node \<Rightarrow> bool" where
  "votes_ok vs n \<longleftrightarrow>
     distinct (map fst vs) \<and> (\<forall>t \<in> fst ` set vs. t \<le> nd_current_term n \<and>
       (t = nd_current_term n \<longrightarrow> nd_voted_for n \<noteq> None))"

lemma votes_ok_Nil [simp]: "votes_ok [] n"
  by (simp add: votes_ok_def)

lemma votes_ok_moved:
  assumes "votes_ok vs n" and up: "nd_current_term n \<le> nd_current_term n'"
    and sticky: "nd_voted_for n \<noteq> None \<Longrightarrow> nd_voted_for n' \<noteq> None"
  shows "votes_ok vs n'"
proof -
  have "t \<le> nd_current_term n' \<and> (t = nd_current_term n' \<longrightarrow> nd_voted_for n' \<noteq> None)"
    if "t \<in> fst ` set vs" for t
  proof -
    from assms(1) that have le: "t \<le> nd_current_term n"
      and vote: "t = nd_current_term n \<longrightarrow> nd_voted_for n \<noteq> None"
      unfolding votes_ok_def by blast+
    have "t = nd_current_term n" if "t = nd_current_term n'"
      by (rule order.antisym [OF le]) (use up that in simp)
    with order.trans [OF le up] vote sticky show ?thesis by blast
  qed
  with assms(1) show ?thesis by (simp add: votes_ok_def)
qed

lemma votes_ok_cast:
  assumes "votes_ok vs n" and "votes_ok vs n'" and "nd_current_term n \<le> nd_current_term n'"
    and "nd_current_term n' = t" "nd_voted_for n' = Some c"
    and fresh: "nd_current_term n = t \<longrightarrow> nd_voted_for n = None"
  shows "votes_ok (vs @ [(t, c)]) n'"
proof -
  have "t \<notin> fst ` set vs"
  proof
    assume "t \<in> fst ` set vs"
    with assms(1) have "t \<le> nd_current_term n" "t = nd_current_term n \<longrightarrow> nd_voted_for n \<noteq> None"
      unfolding votes_ok_def by blast+
    moreover have "nd_current_term n \<le> t" using assms(3,4) by simp
    ultimately have "t = nd_current_term n" using order.antisym by blast
    with fresh \<open>t = nd_current_term n \<longrightarrow> nd_voted_for n \<noteq> None\<close> show False by blast
  qed
  with assms(2,4,5) show ?thesis by (simp add: votes_ok_def)
qed

lemma node_step_votes_ok:
  assumes "node_step pr ops gen_range M l M'" and "term_kept (main_node M) (main_node M')"
    and ok: "votes_ok vs (main_node M)"
  shows "votes_ok (vs @ votes_of l) (main_node M')"
proof -
  have up: "nd_current_term (main_node M) \<le> nd_current_term (main_node M')"
    using assms(2) by (simp add: term_kept_def)
  have moved: "votes_ok vs (main_node M')"
    by (rule votes_ok_moved [OF ok up])
      (use node_step_frame [OF assms(1)] in \<open>simp add: node_frame_def\<close>)
  show ?thesis
  proof (cases "votes_of l = []")
    case False
    with assms(1) obtain t c where "votes_of l = [(t, c)]" "nd_current_term (main_node M') = t"
      "nd_voted_for (main_node M') = Some c"
      "nd_current_term (main_node M) = t \<longrightarrow> nd_voted_for (main_node M) = None"
      by (rule node_step_votes)
    with votes_ok_cast [OF ok moved up] show ?thesis by simp
  qed (use moved in simp)
qed

lemma run_votes:
  assumes "node_run pr ops gen_range term_kept M0 vs M"
  shows "votes_ok vs (main_node M)"
  using assms by induction (auto intro: node_step_votes_ok)

text \<open>A node's choice in a term is the vote it cast there.\<close>

lemma votes_ok_choice: "votes_ok vs n \<Longrightarrow> map_of vs t = Some c \<longleftrightarrow> (t, c) \<in> set vs"
  by (simp add: votes_ok_def)

end
