(* ===== verification/Node_Relations.thy ===== *)
theory Node_Relations
  imports Node_System
begin

text \<open>
  What holds of every write to a node holds of every step of it. The interface is a preorder on
  nodes that the single writes of the code keep: to a field of the node, through the store's
  methods, and to its channels. Every handler, task and turn of the main loop is composed of
  these, so it keeps the relation however it ends.

  There are two of them. In the first the commit index is not written, and an append request that
  is sent carries the node's own: it speaks of everything but the handling of an append request,
  which is left to its user. The second adds the writes of the commit index and of the outside.
\<close>

locale kept_by_tasks =
  fixes ops :: "('s, 'r) state_ops"
    and rel :: "('s, 'r) raft_node \<Rightarrow> ('s, 'r) raft_node \<Rightarrow> bool"
  assumes rel_refl: "reflp rel" and rel_trans: "transp rel"
    and write_append: "rel n (n\<lparr>nd_state := snd (append_entries ops es (nd_state n))\<rparr>)"
    and write_remove: "rel n (n\<lparr>nd_state := snd (remove_entries_after ops i (nd_state n))\<rparr>)"
    and write_store_term: "rel n (n\<lparr>nd_state := snd (store_current_term ops t (nd_state n))\<rparr>)"
    and write_store_vote: "rel n (n\<lparr>nd_state := snd (store_voted_for ops c (nd_state n))\<rparr>)"
    and write_term: "rel n (n\<lparr>nd_current_term := t\<rparr>)"
    and write_vote: "rel n (n\<lparr>nd_voted_for := Some c\<rparr>)"
    and write_role: "rel n (n\<lparr>nd_current_state := r\<rparr>)"
    and write_heard: "rel n (n\<lparr>nd_last_heard_from_leader := h\<rparr>)"
    and write_leader: "rel n (n\<lparr>nd_leader_id := l\<rparr>)"
    and receive_rpc: "rel n (snd (on_in_rpc channel_recv n))"
    and receive_client: "rel n (snd (on_in_client channel_recv n))"
    and write_shutdown: "rel n (n\<lparr>nd_channels := (nd_channels n)\<lparr>shutdown_ch := sh\<rparr>\<rparr>)"
    and send_vote: "rel n (snd (emit_request_vote ops peer n))"
    and send_append: "ae_last_commit_index req = get_last_commit_index ops (nd_state n) \<Longrightarrow>
      rel n (snd (emit_append_entries req peer n))"
begin

lemma rel_self [simp]: "rel n n"
  using rel_refl by (rule reflpD)

section \<open>Handlers\<close>

lemma keeps_store:
  "guarantees rel (on_state (append_entries ops es))"
  "guarantees rel (on_state (remove_entries_after ops i))"
  "guarantees rel (on_state (store_current_term ops t))"
  "guarantees rel (on_state (store_voted_for ops c))"
  using write_append write_remove write_store_term write_store_vote
  by (auto simp: guarantees_def on_state_run split: prod.split) (metis snd_conv)+

lemma keeps_changes:
  "guarantees rel (modify_c change_to_follower_state)"
  "guarantees rel (modify_c change_to_candidate_state)"
  "guarantees rel (modify_c change_to_leader_state)"
  "guarantees rel (modify_c change_to_shutdown_state)"
  "guarantees rel (modify_c (update_last_heard_from_leader now))"
  "guarantees rel (modify_c (update_leader_id l))"
  "guarantees rel (modify_c (\<lambda>n. n\<lparr>nd_current_term := t\<rparr>))"
  "guarantees rel (modify_c (\<lambda>n. n\<lparr>nd_voted_for := Some c\<rparr>))"
  by (simp_all add: guarantees_def modify_c_def node_change_defs write_role write_heard write_leader
      write_term write_vote)

lemma keeps_channels:
  "guarantees rel (on_in_rpc channel_recv)" "guarantees rel (on_in_client channel_recv)"
  "guarantees rel (on_shutdown k)" "guarantees rel (emit_request_vote ops peer)"
  using receive_rpc receive_client write_shutdown send_vote
  by (auto simp: guarantees_def on_shutdown_def zoom_c_def split: prod.split)

lemmas keeps_writes = keeps_store keeps_changes keeps_channels

text \<open>The rules for composed computations, for this relation.\<close>

lemmas keeps_rules =
  guarantees_bind [OF rel_trans] guarantees_then [OF rel_trans] guarantees_pure [OF rel_refl]
  guarantees_if guarantees_case guarantees_messages guarantees_reason

lemma keeps_updates:
  "guarantees rel (update_current_term ops t)"
  "guarantees rel (update_current_term_and_voted_for ops t c)"
  "guarantees rel node_shutdown"
  unfolding update_current_term_def update_current_term_and_voted_for_def node_shutdown_def
  by (intro keeps_rules keeps_writes)+

lemma keeps_vote_handler: "guarantees rel (respond_to_request_vote ops req tx)"
  unfolding respond_to_request_vote_def Let_def
  by (rule guaranteesI)
    (simp, intro impI conjI guarantees_then_at [where R = rel, OF rel_trans] keeps_rules keeps_writes keeps_updates)

lemma keeps_branches:
  "guarantees rel shutdown_branch" "guarantees rel client_redirect_branch" "guarantees rel (client_append_branch ops)"
  unfolding shutdown_branch_def client_redirect_branch_def client_append_branch_def recv_some_def
  by (intro keeps_rules keeps_writes)+

section \<open>Tasks and turns\<close>

text \<open>The node inside a session or a role's loop.\<close>

lemma via_preorders: "reflp (via f rel)" "transp (via f rel)"
  using via_preorder rel_refl rel_trans by blast+

lemmas via_rules =
  guarantees_bind [OF via_preorders(2)] guarantees_then [OF via_preorders(2)] guarantees_pure [OF via_preorders(1)]
  guarantees_if guarantees_case guarantees_messages guarantees_reason

lemma keeps_other_fields:
  "(\<And>s. f (g s) = f s) \<Longrightarrow> guarantees (via f rel) (modify_c g)"
  by (rule guarantees_modify) (simp add: via_def)

lemma keeps_zoomed:
  "guarantees rel m \<Longrightarrow> guarantees (via vs_node rel) (on_vs_node m)"
  "guarantees rel m \<Longrightarrow> guarantees (via rs_node rel) (on_rs_node m)"
  "guarantees rel m \<Longrightarrow> guarantees (via ft_node rel) (on_ft_node m)"
  "guarantees rel m \<Longrightarrow> guarantees (via lt_node rel) (on_lt_node m)"
  "guarantees (via vs_node rel) k \<Longrightarrow> guarantees (via ct_node rel) (on_ct_session k)"
  "guarantees rel m \<Longrightarrow> guarantees (via ct_node rel) (on_ct_node m)"
  by (auto simp: guarantees_def via_def on_vs_node_def on_rs_node_def on_ft_node_def on_lt_node_def
      on_ct_session_def on_ct_node_def zoom_c_def lt_node_def ct_node_def split: prod.split)
    (metis snd_conv)+

lemma keeps_vote_result: "guarantees (via vs_node rel) (on_vote_result k)"
  by (auto simp: guarantees_def via_def on_vote_result_def zoom_c_def split: prod.split)

lemma keeps_vote_session:
  "guarantees (via vs_node rel) (on_vote_response ops m response)"
  "guarantees (via vs_node rel) (get_unack_peers ops)"
proof -
  show "guarantees (via vs_node rel) (on_vote_response ops m response)"
    unfolding on_vote_response_def Let_def
    by (intro via_rules keeps_zoomed keeps_writes keeps_updates keeps_vote_result keeps_other_fields; simp)
  show "guarantees (via vs_node rel) (get_unack_peers ops)"
    by (rule guaranteesI) (simp add: get_unack_peers_def Let_def via_def on_vote_result_def zoom_c_def
      then_c_def bind_c_def return_c_def split: prod.split outcome.split)
qed

text \<open>Opening a vote session writes two fields.\<close>

lemma keeps_opening: "rel n (vs_node (vote_session_initialize n))"
proof -
  have "rel n (increment_term n)" unfolding increment_term_def by (rule write_term)
  moreover have "rel (increment_term n) (vote_for_self (increment_term n))"
    unfolding vote_for_self_def by (rule write_vote)
  ultimately show ?thesis
    unfolding vote_session_initialize_def vote_session.simps by (rule transpD [OF rel_trans])
qed

text \<open>Replication: the table of peers and its lock are beside the node.\<close>

lemma keeps_locked:
  assumes "guarantees (via rs_node rel) m"
  shows "guarantees (via rs_node rel) (with_read m)" "guarantees (via rs_node rel) (with_write m)"
proof -
  have lock: "rs_node (release_read s) = rs_node s" "rs_node (release_write s) = rs_node s" for s :: "('s, 'r) replication_session"
    by (simp_all add: release_read_def release_write_def split: rwlock.split nat.split)
  have hold: "guarantees (via rs_node rel) (holding release_read m)" "guarantees (via rs_node rel) (holding release_write m)"
    using assms by (auto simp: guarantees_def via_def holding_def lock split: prod.split outcome.split) (metis snd_conv)+
  have acq: "guarantees (via rs_node rel) acquire_read" "guarantees (via rs_node rel) acquire_write"
    by (auto simp: guarantees_def via_def acquire_read_def acquire_write_def split: rwlock.split)
  show "guarantees (via rs_node rel) (with_read m)" "guarantees (via rs_node rel) (with_write m)"
    unfolding with_read_def with_write_def by (intro via_rules hold acq)+
qed

lemma keeps_peers:
  "guarantees (via rs_node rel) (peer_entry i)" "guarantees (via rs_node rel) (set_peer i e)"
  by (auto simp: guarantees_def via_def peer_entry_def set_peer_def modify_c_def split: option.split)

lemma keeps_replication:
  "guarantees (via rs_node rel) (decrement_next_index pr i)"
  "guarantees (via rs_node rel) (leader_steps_down ops t)"
  "guarantees (via rs_node rel) (calculate_last_commit_index ops)"
  "guarantees (via rs_node rel) (peer_matches ops peer)"
  "guarantees (via rs_node rel) (compose_append_entries_request pr ops peer)"
  unfolding decrement_next_index_def leader_steps_down_def calculate_last_commit_index_def
    peer_matches_def compose_append_entries_request_def
  by (intro via_rules keeps_peers keeps_locked keeps_zoomed keeps_writes keeps_updates)+

lemma keeps_heartbeats:
  "ci = get_last_commit_index ops (nd_state (rs_node s)) \<Longrightarrow> rel (rs_node s) (rs_node (emit_heartbeats ci ps s))"
proof (induction ps arbitrary: s)
  case (Cons p ps)
  let ?n = "snd (emit_append_entries (heartbeat_request (rs_node s) ci) p (rs_node s))"
  have "rel (rs_node s) ?n"
    by (rule send_append) (simp add: heartbeat_request_def Cons.prems)
  moreover have "nd_state ?n = nd_state (rs_node s)"
    by (simp add: emit_append_entries_def on_out_rpc_def zoom_c_def split: prod.split)
  ultimately show ?case
    using Cons.IH [of "s\<lparr>rs_node := ?n\<rparr>"] Cons.prems transpD [OF rel_trans] by fastforce
qed simp

lemma keeps_heartbeat_round: "rel (rs_node s) (rs_node (snd (send_heartbeat_to_peers ops s)))"
proof -
  have "rel (rs_node s) (rs_node (emit_heartbeats (get_last_commit_index ops (nd_state (rs_node s))) ps (s\<lparr>rs_peers_lock := l\<rparr>)))"
    for ps l
    using keeps_heartbeats [of _ "s\<lparr>rs_peers_lock := l\<rparr>"] by simp
  then show ?thesis
    by (auto simp: send_heartbeat_to_peers_def with_read_def acquire_read_def holding_def release_read_def outcome_simps
        bind_c_def split: rwlock.split prod.split outcome.split nat.split)
qed

lemma keeps_heartbeat_answer: "guarantees (via rs_node rel) (on_heartbeat_response pr ops response)"
  unfolding on_heartbeat_response_def
  by (intro via_rules keeps_peers keeps_locked keeps_replication keeps_zoomed keeps_writes keeps_updates)

text \<open>
  An accepted answer never gets to the commit index: the standby task asks for the lock it holds.
\<close>

lemma keeps_standby_answer: "rel (rs_node s) (rs_node (snd (on_standby_response pr ops response s)))"
proof (cases "aer_reason response = AeOk")
  case True
  have "rs_node (snd (on_standby_response pr ops response s)) = rs_node s"
    using True
    by (auto simp: on_standby_response_def with_write_def acquire_write_def holding_def peer_entry_def set_peer_def
        calculate_last_commit_index_def with_read_def acquire_read_def release_write_def outcome_simps bind_c_def
        split: rwlock.split option.split prod.split outcome.split)
  then show ?thesis by simp
next
  case False
  then have "guarantees (via rs_node rel) (on_standby_response pr ops response)"
    unfolding on_standby_response_def
    by (cases "aer_reason response"; simp only: append_entries_response_reason.case;
        intro via_rules keeps_peers keeps_locked keeps_replication; simp)
  from guarantees_at [OF this, of s] show ?thesis by (simp add: via_def)
qed

lemma compose_pure:
  assumes "compose_append_entries_request pr ops peer s = (r, s1)"
  shows "rs_node s1 = rs_node s"
    "r = Ok req \<Longrightarrow> ae_last_commit_index req = get_last_commit_index ops (nd_state (rs_node s))"
  using assms
  by (auto simp: compose_append_entries_request_def with_read_def acquire_read_def holding_def peer_entry_def
      release_read_def u64_sub_def outcome_simps bind_c_def split: rwlock.splits option.splits if_splits nat.splits)

lemma keeps_peer_turn: "rel (rs_node s) (rs_node (snd (update_peer_turn pr ops peer reply rx stopped s)))"
proof -
  obtain r0 s0 where match: "peer_matches ops peer s = (r0, s0)" by force
  have s0: "rs_node s0 = rs_node s"
    using match
    by (auto simp: peer_matches_def with_read_def acquire_read_def holding_def peer_entry_def release_read_def
        outcome_simps bind_c_def split: rwlock.splits option.splits nat.splits)
  obtain r1 s1 where compose: "compose_append_entries_request pr ops peer s0 = (r1, s1)" by force
  note pure = compose_pure [OF compose]
  have "rel (rs_node s) (rs_node (snd (then_c (on_rs_node (send_append_entries_rpc req peer reply rx)) k s1)))"
    if "r1 = Ok req" and k: "\<And>s. rs_node (snd (k s)) = rs_node s" for req and k :: "('s, 'r, session_control) session_comp"
  proof -
    have "rel (rs_node s1) (snd (emit_append_entries req peer (rs_node s1)))"
      by (rule send_append) (use pure that(1) s0 in simp)
    with pure(1) s0 k show ?thesis
      by (auto simp: send_append_entries_rpc_def on_rs_node_def zoom_c_def then_c_def bind_c_def lift_c_def
          split: prod.split outcome.split)
  qed
  with match compose s0 pure(1) show ?thesis
    by (auto simp: update_peer_turn_def bind_c_def return_c_def split: outcome.split)
qed

text \<open>The turns of the roles, up to what the handling of a message does.\<close>

lemma rpc_turn_node:
  "ft_node (snd (follower_branch ops gen_range now OnRpc ft :: 'p reply outcome \<times> _)) =
     snd (rpc_branch ops now (ft_node ft) :: 'p reply outcome \<times> _)"
  by (auto simp: follower_branch_def on_ft_node_def zoom_c_def reset_election_timeout_def bind_c_def outcome_simps
      split: prod.split outcome.split)

lemma keeps_follower:
  assumes "b \<noteq> OnRpc"
  shows "guarantees (via ft_node rel) (follower_branch ops gen_range now b)"
  using assms unfolding follower_branch_def reset_election_timeout_def
  by (cases b; simp only: select_branch.case;
      intro via_rules recv_some_frame via_preorders keeps_zoomed keeps_writes keeps_branches keeps_other_fields; simp)

lemma keeps_candidate:
  assumes "b \<noteq> OnRpc"
  shows "rel (ct_node t) (ct_node (snd (candidate_branch ops gen_range now b t)))"
proof (cases "b = OnElectionTimeout")
  case True
  with keeps_opening [of "ct_node t"] show ?thesis by (simp add: election_timeout_node)
next
  case False
  have spawn: "guarantees (via ct_node rel) (spawn_request_votes now)"
    by (auto simp: guarantees_def spawn_request_votes_def bind_c_def outcome_simps via_def ct_node_def
      split: outcome.split)
  have lift: "guarantees (via ct_node rel) (on_ct_session (on_vote_result k))" for k
    by (intro keeps_zoomed keeps_vote_result)
  from False assms have "guarantees (via ct_node rel) (candidate_branch ops gen_range now b)"
    unfolding candidate_branch_def
    by (cases b; simp only: select_branch.case;
        intro via_rules recv_some_frame via_preorders spawn lift keeps_zoomed keeps_writes keeps_branches keeps_other_fields; simp)
  from guarantees_at [OF this] show ?thesis by (simp add: via_def)
qed

lemma keeps_leader:
  assumes "b \<noteq> OnRpc"
  shows "guarantees (via lt_node rel) (leader_branch ops gen_range now b)"
proof -
  have spawn: "guarantees (via lt_node rel) (spawn_heartbeats now)"
    by (auto simp: guarantees_def spawn_heartbeats_def bind_c_def outcome_simps via_def lt_node_def
      split: outcome.split)
  have other: "lt_node (t\<lparr>lt_heartbeat_timeout := x\<rparr>) = lt_node t" for t :: "('s, 'r) leader_task" and x
    by (simp add: lt_node_def)
  show ?thesis
    using assms unfolding leader_branch_def
    by (cases b; simp only: select_branch.case;
        intro via_rules recv_some_frame via_preorders spawn keeps_zoomed keeps_writes keeps_branches keeps_other_fields other)
qed

lemma keeps_turn:
  assumes turn: "main_turn pr ops gen_range now b M = (vs, M')"
    and rpc: "rel (main_node M) (snd (rpc_branch ops now (main_node M) :: unit reply outcome \<times> _))"
  shows "rel (main_node M) (main_node M')"
proof (cases M)
  case (Dispatching n)
  with turn have "run_role pr ops gen_range now n = (vs, M')" by simp
  from run_role_node [OF this] Dispatching keeps_opening [of n] show ?thesis by auto
next
  case (FollowerSelect t)
  have "rel (ft_node t) (ft_node (snd (follower_branch ops gen_range now b t :: unit reply outcome \<times> _)))"
    using rpc FollowerSelect guarantees_at [OF keeps_follower, of b t gen_range now]
    by (cases "b = OnRpc") (simp_all add: rpc_turn_node via_def)
  with turn FollowerSelect show ?thesis by (auto simp: after_branch_node split: if_splits)
next
  case (CandidateSelect t)
  have "rel (ct_node t) (ct_node (snd (candidate_branch ops gen_range now b t :: unit reply outcome \<times> _)))"
    using rpc CandidateSelect keeps_candidate [of b t gen_range now]
    by (cases "b = OnRpc") (simp_all add: rpc_branch_node)
  with turn CandidateSelect show ?thesis by (auto simp: after_branch_node split: if_splits)
next
  case (LeaderSelect t)
  have "rel (lt_node t) (lt_node (snd (leader_branch ops gen_range now b t :: unit reply outcome \<times> _)))"
    using rpc LeaderSelect guarantees_at [OF keeps_leader, of b t gen_range now]
    by (cases "b = OnRpc") (simp_all add: rpc_branch_node via_def)
  with turn LeaderSelect show ?thesis by (auto simp: after_branch_node split: if_splits)
next
  case (LeaderLoop t)
  with turn show ?thesis
    by (auto simp: leader_enter_def lt_node_def split: outcome.splits option.splits if_splits)
qed (use turn in \<open>auto split: outcome.splits option.splits\<close>)

text \<open>Every step of the machine but the outside's keeps the relation, if handling a message does.\<close>

lemma keeps_step:
  assumes step: "node_step pr ops gen_range M l M'"
    and rpc: "\<And>now. rel (main_node M) (snd (rpc_branch ops now (main_node M) :: unit reply outcome \<times> _))"
    and outside: "\<And>ch. main_node M' = (main_node M)\<lparr>nd_channels := ch\<rparr> \<Longrightarrow> l = Outside \<Longrightarrow> rel (main_node M) (main_node M')"
  shows "rel (main_node M) (main_node M')"
  using step
proof cases
  case turn
  then show ?thesis using rpc by (auto intro: keeps_turn)
next
  case (ask_peers v put r v')
  with guarantees_at [OF keeps_vote_session(2), of v] in_session_node(1) [OF ask_peers(3)] show ?thesis
    by (simp add: via_def)
next
  case (send_vote_request peer r n')
  with send_vote [of "main_node M" peer] show ?thesis by simp
next
  case (vote_answer v put response r v')
  with guarantees_at [OF keeps_vote_session(1), of v] in_session_node(1) [OF vote_answer(3)] show ?thesis
    by (metis snd_conv via_def)
next
  case (heartbeats v put r v')
  with keeps_heartbeat_round [of v] in_session_node(2) [OF heartbeats(3)] show ?thesis by simp
next
  case (heartbeat_answer v put response r v')
  with guarantees_at [OF keeps_heartbeat_answer, of v] in_session_node(2) [OF heartbeat_answer(3)] show ?thesis
    by (metis snd_conv via_def)
next
  case (update_peer v put peer reply rx stopped r v')
  with keeps_peer_turn [of v] in_session_node(2) [OF update_peer(3)] show ?thesis by (metis snd_conv)
next
  case (standby_answer v put response r v')
  with keeps_standby_answer [of v] in_session_node(2) [OF standby_answer(3)] show ?thesis by (metis snd_conv)
next
  case (shut_down r n')
  with guarantees_at [OF keeps_updates(3), of "main_node M"] show ?thesis by simp
next
  case (outside ch)
  then show ?thesis by (intro assms(3) [of ch]) simp_all
qed

end

section \<open>Every write\<close>

locale kept_by_writes = kept_by_tasks +
  assumes write_commit: "rel n (n\<lparr>nd_state := snd (set_last_commit_index ops i (nd_state n))\<rparr>)"
    and write_channels: "rel n (n\<lparr>nd_channels := ch\<rparr>)"
begin

lemma keeps_commit: "guarantees rel (on_state (set_last_commit_index ops i))"
  using write_commit by (auto simp: guarantees_def on_state_run split: prod.split) (metis snd_conv)

lemma keeps_append_handler: "guarantees rel (respond_to_append_entries ops now areq tx)"
  unfolding respond_to_append_entries_def Let_def
  by (rule guaranteesI)
    (simp, intro impI conjI guarantees_then_at [where R = rel, OF rel_trans] keeps_rules keeps_writes keeps_commit
      keeps_updates)

lemma keeps_rpc: "guarantees rel (rpc_branch ops now)"
  unfolding rpc_branch_def recv_some_def
  by (intro keeps_rules keeps_writes keeps_append_handler keeps_vote_handler)

lemma keeps_every_step:
  "node_step pr ops gen_range M l M' \<Longrightarrow> rel (main_node M) (main_node M')"
  by (erule keeps_step) (simp_all add: guarantees_at [OF keeps_rpc] write_channels)

end

section \<open>The membership is fixed\<close>

definition same_members :: "('s, 'r) state_ops \<Rightarrow> ('s, 'r) raft_node \<Rightarrow> ('s, 'r) raft_node \<Rightarrow> bool" where
  "same_members ops n n' \<longleftrightarrow> get_membership ops (nd_state n') = get_membership ops (nd_state n)"

text \<open>A store whose methods keep the membership is only ever written through them.\<close>

sublocale fixed_membership \<subseteq> members: kept_by_writes ops "same_members ops"
  by unfold_locales
    (auto simp: same_members_def append_members remove_members commit_members term_members vote_members
      on_in_rpc_def on_in_client_def on_out_rpc_def emit_request_vote_def emit_append_entries_def outcome_simps
      bind_c_def intro!: reflpI transpI split: prod.split)

context fixed_membership
begin

lemma members_stay:
  "node_step pr ops gen_range M l M' \<Longrightarrow>
     get_membership ops (nd_state (main_node M')) = get_membership ops (nd_state (main_node M))"
  using members.keeps_every_step by (simp add: same_members_def)

end

text \<open>The sample store is one, so what its nodes do keeps their membership.\<close>

interpretation memory_members: fixed_membership memory_ops
  by (rule memory.fixed_membership_axioms)

interpretation memory_kept: kept_by_writes memory_ops "same_members memory_ops"
  by (rule memory.members.kept_by_writes_axioms)

section \<open>The configuration is fixed\<close>

text \<open>The fields the builder sets for good, whatever the store does.\<close>

definition same_config :: "('s, 'r) raft_node \<Rightarrow> ('s, 'r) raft_node \<Rightarrow> bool" where
  "same_config n n' \<longleftrightarrow>
     nd_id n' = nd_id n \<and> nd_election_timeout_range n' = nd_election_timeout_range n \<and>
     nd_heartbeat_interval n' = nd_heartbeat_interval n"

interpretation config: kept_by_writes ops same_config for ops
  by unfold_locales
    (auto simp: same_config_def on_in_rpc_def on_in_client_def on_out_rpc_def emit_request_vote_def
      emit_append_entries_def outcome_simps bind_c_def intro!: reflpI transpI split: prod.split)

end
