(* ===== verification/Sessions.thy ===== *)
theory Sessions
  imports Node_System
begin

text \<open>
  What a step of a node does to the tally of its vote session: the facts about one node that
  theory Cluster puts together for many.
\<close>

section \<open>Steps that count no vote\<close>

text \<open>
  \<open>tally_kept X\<close>: a session keeps its count, and its result channel gains no result outside \<open>X\<close>.
\<close>

definition tally_kept :: "vote_result set \<Rightarrow> ('s, 'r) vote_session \<Rightarrow> ('s, 'r) vote_session \<Rightarrow> bool" where
  "tally_kept X v v' \<longleftrightarrow>
     vs_granted_votes v' = vs_granted_votes v \<and>
     set (ch_queue (vs_vote_result v')) \<subseteq> set (ch_queue (vs_vote_result v)) \<union> X"

lemma tally_kept_preorder [guarantee_intros]: "reflp (tally_kept X)" "transp (tally_kept X)"
proof -
  show "reflp (tally_kept X)" by (simp add: tally_kept_def reflpI)
  show "transp (tally_kept X)"
    by (rule transpI, unfold tally_kept_def) (elim conjE, intro conjI, simp, blast)
qed

lemma tally_kept_refl [simp]: "tally_kept X v v"
  by (simp add: tally_kept_def)

lemma tally_kept_node [simp]: "tally_kept X v (v\<lparr>vs_node := n\<rparr>)"
  by (simp add: tally_kept_def)

lemma tally_kept_ct_node [guarantee_intros]: "guarantees (via ct_session (tally_kept X)) (on_ct_node m)"
  by (auto simp: guarantees_def on_ct_node_def on_vs_node_def zoom_c_def via_def split: prod.split)

lemma tally_kept_result [guarantee_intros]:
  "guarantees (via ct_session (tally_kept X)) (on_ct_session (on_vote_result channel_recv))"
  by (auto simp: guarantees_def on_ct_session_def on_vote_result_def zoom_c_def via_def
      channel_recv_def tally_kept_def split: prod.split list.split)

lemma tally_kept_timers [guarantee_intros]:
  "guarantees (via ct_session (tally_kept X)) (modify_c (\<lambda>s. s\<lparr>ct_retry_timeout := t\<rparr>))"
  "guarantees (via ct_session (tally_kept X)) (modify_c (\<lambda>s. s\<lparr>ct_election_timeout := t\<rparr>))"
  "guarantees (via ct_session (tally_kept X)) (spawn_request_votes now)"
  by (rule guarantees_modify, simp add: via_def)+
    (auto simp: guarantees_def spawn_request_votes_def bind_c_def outcome_simps via_def
      split: outcome.split)

lemma candidate_branch_tally:
  assumes "\<not> session_restarts gen_range now b t"
  shows "tally_kept {} (ct_session t) (ct_session (snd (candidate_branch ops gen_range now b t)))"
proof (cases "b = OnElectionTimeout")
  case False
  then have "guarantees (via ct_session (tally_kept {})) (candidate_branch ops gen_range now b)"
    unfolding candidate_branch_def
    by (cases b; simp only: select_branch.case; intro guarantee_intros; simp)
  from guarantees_at [OF this, of t] show ?thesis by (simp add: via_def)
next
  case True
  with assms show ?thesis
    by (auto simp: candidate_branch_def session_restarts_def bind_c_def outcome_simps
        split: outcome.split)
qed

text \<open>
  \<open>quiet X M M'\<close>: the step opens no vote session, a session that stays keeps its tally, and the
  node is only then a candidate in it if it was one before, of the same term.
\<close>

definition quiet :: "vote_result set \<Rightarrow> ('s, 'r) main_task \<Rightarrow> ('s, 'r) main_task \<Rightarrow> bool" where
  "quiet X M M' \<longleftrightarrow>
     (\<forall>v'. vote_session_of M' = Some v' \<longrightarrow>
        (\<exists>v. vote_session_of M = Some v \<and> tally_kept X v v') \<and>
        (nd_current_state (main_node M') = Candidate \<longrightarrow>
           nd_current_state (main_node M) = Candidate \<and>
           nd_current_term (main_node M') = nd_current_term (main_node M)))"

lemma quietI:
  assumes "node_frame L D K (main_node M) (main_node M')" and "vote_session_of M' \<noteq> None \<Longrightarrow> \<not> K"
    and "\<And>v'. vote_session_of M' = Some v' \<Longrightarrow> \<exists>v. vote_session_of M = Some v \<and> tally_kept X v v'"
  shows "quiet X M M'"
  using assms by (auto simp: quiet_def node_frame_def)

lemma vote_session_of_put [simp]:
  "vote_session_of (put_node n M) = map_option (\<lambda>v. v\<lparr>vs_node := n\<rparr>) (vote_session_of M)"
  "vote_session_of (put_replication_session s M) =
     map_option (\<lambda>v. v\<lparr>vs_node := rs_node s\<rparr>) (vote_session_of M)"
  by (cases M; simp add: ct_put_node_def)+

lemma vote_session_of_put_session [simp]:
  "vote_session_of M = Some v \<Longrightarrow> vote_session_of (put_vote_session v' M) = Some v'"
  by (cases M) simp_all

lemma quiet_put:
  assumes "node_frame L D False (main_node M) n"
  shows "quiet X M (put_node n M)"
  by (rule quietI [where K = False]) (use assms in \<open>auto simp: map_option_case split: option.splits\<close>)

lemma quiet_put_replication:
  assumes "node_frame L D False (main_node M) (rs_node s)"
  shows "quiet X M (put_replication_session s M)"
  by (rule quietI [where K = False]) (use assms in \<open>auto simp: map_option_case split: option.splits\<close>)

section \<open>The turns of the main loop\<close>

text \<open>The vote request a turn answered: only a turn that waits in a \<open>select!\<close> receives one.\<close>

fun in_select :: "('s, 'r) main_task \<Rightarrow> bool" where
  "in_select (FollowerSelect _) = True"
| "in_select (CandidateSelect _) = True"
| "in_select (LeaderSelect _) = True"
| "in_select _ = False"

definition turn_answer ::
    "('s, 'r) state_ops \<Rightarrow> instant \<Rightarrow> select_branch \<Rightarrow> ('s, 'r) main_task
       \<Rightarrow> (request_vote_request \<times> request_vote_response) option" where
  "turn_answer ops now b M = (if in_select M then rpc_answer ops now b (main_node M) else None)"

lemma timer_ready_rpc [simp]:
  "timer_ready now OnRpc [(OnElectionTimeout, t)]"
  "timer_ready now OnRpc [(OnElectionTimeout, t), (OnRetryTimeout, u)]"
  "timer_ready now OnRpc [(OnHeartbeatTimeout, t)]"
  by (simp_all add: timer_ready_def)

lemma vote_in_rpc: "b \<noteq> OnRpc \<Longrightarrow> vote_in (rpc_answer ops now b n) = []"
  by (simp add: rpc_answer_def vote_in_def)

text \<open>A turn votes for its own node when it opens a session, and otherwise as it answered.\<close>

lemma main_turn_vote:
  assumes "main_turn pr ops gen_range now b M = (vs, M')"
  shows "vs = (if opens_session gen_range now b M then [self_vote (main_node M)]
    else vote_in (turn_answer ops now b M))"
proof (cases M)
  case (Dispatching n)
  with assms have "run_role pr ops gen_range now n = (vs, M')" by simp
  from run_role_session [OF this, of b] Dispatching show ?thesis
    by (simp add: turn_answer_def vote_in_def del: opens_session.simps)
next
  case (FollowerSelect t)
  with assms show ?thesis
    by (cases "b = OnRpc") (auto simp: turn_answer_def rpc_votes_def vote_in_rpc split: if_splits)
next
  case (CandidateSelect t)
  with assms show ?thesis
    by (cases "b = OnRpc")
      (auto simp: turn_answer_def rpc_votes_def vote_in_rpc session_restarts_def ct_node_def
        split: if_splits)
next
  case (LeaderSelect t)
  with assms show ?thesis
    by (cases "b = OnRpc") (auto simp: turn_answer_def rpc_votes_def vote_in_rpc split: if_splits)
qed (use assms in \<open>auto simp: turn_answer_def vote_in_def split: outcome.splits option.splits prod.splits\<close>)

lemma opening_answers_nothing:
  "opens_session gen_range now b M \<Longrightarrow> turn_answer ops now b M = None"
  by (cases M) (auto simp: turn_answer_def rpc_answer_def session_restarts_def)

lemma after_branch_session:
  assumes "vote_session_of (after_branch res loop select node) = Some v"
  shows "vote_session_of (loop (snd res)) = Some v \<or> vote_session_of (select (snd res)) = Some v"
  using assms by (auto simp: after_branch_def split: prod.splits outcome.splits)

lemma main_turn_tally:
  assumes "main_turn pr ops gen_range now b M = (vs, M')" and "\<not> opens_session gen_range now b M"
    and "vote_session_of M' = Some v'"
  shows "\<exists>v. vote_session_of M = Some v \<and> tally_kept {} v v'"
proof (cases M)
  case (Dispatching n)
  with assms have "run_role pr ops gen_range now n = (vs, M')" by simp
  from run_role_session [OF this, of b] Dispatching assms(2,3) show ?thesis
    by (simp del: opens_session.simps)
next
  case (CandidateSelect t)
  let ?T = "[(OnElectionTimeout, ct_election_timeout t), (OnRetryTimeout, ct_retry_timeout t)]"
  show ?thesis
  proof (cases "timer_ready now b ?T")
    case True
    with assms(2) CandidateSelect have "\<not> session_restarts gen_range now b t" by simp
    from candidate_branch_tally [OF this, of ops, where ?'c = unit] assms True CandidateSelect
      after_branch_session [where v = v' and loop = CandidateLoop and select = CandidateSelect
        and node = ct_node and res = "candidate_branch ops gen_range now b t :: unit reply outcome \<times> _"]
    show ?thesis by auto
  qed (use assms CandidateSelect in auto)
next
  case (FollowerSelect t)
  with assms after_branch_session [where v = v' and loop = FollowerLoop and select = FollowerSelect
      and node = ft_node and res = "follower_branch ops gen_range now b t :: unit reply outcome \<times> _"]
  show ?thesis by (auto split: if_splits)
next
  case (LeaderSelect t)
  with assms after_branch_session [where v = v' and loop = LeaderLoop and select = LeaderSelect
      and node = lt_node and res = "leader_branch ops gen_range now b t :: unit reply outcome \<times> _"]
  show ?thesis by (auto split: if_splits)
qed (use assms in \<open>auto split: outcome.splits option.splits prod.splits\<close>)

lemma main_turn_quiet:
  assumes "main_turn pr ops gen_range now b M = (vs, M')" and "\<not> opens_session gen_range now b M"
  shows "quiet {} M M'"
proof (rule quietI [OF main_turn_frame [OF assms(1)]])
  fix v' assume "vote_session_of M' = Some v'"
  with main_turn_tally [OF assms] show "\<exists>v. vote_session_of M = Some v \<and> tally_kept {} v v'" .
next
  assume "vote_session_of M' \<noteq> None"
  with main_turn_tally [OF assms] have "vote_session_of M \<noteq> None" by blast
  with assms(2) show "\<not> may_stand gen_range now b M" by (cases M) simp_all
qed

text \<open>A turn that opens a session starts it afresh, in the next term.\<close>

lemma main_turn_opens:
  assumes "main_turn pr ops gen_range now b M = (vs, M')" and "opens_session gen_range now b M"
  shows "main_node M' = vs_node (vote_session_initialize (main_node M))"
    "vote_session_of M' = Some v' \<Longrightarrow> v' = vote_session_initialize (main_node M)"
proof -
  have restart: "ct_session (snd (candidate_branch ops gen_range now b t :: unit reply outcome \<times> _)) =
      vote_session_initialize (ct_node t)" if "session_restarts gen_range now b t" for t :: "('a, 'b) candidate_task"
    using that by (auto simp: candidate_branch_def session_restarts_def bind_c_def outcome_simps
        spawn_request_votes_def ct_node_def split: outcome.split elim!: is_okE)
  show "main_node M' = vs_node (vote_session_initialize (main_node M))"
    using assms restart
    by (cases M) (auto simp: run_role_session [where b = b] after_branch_node ct_node_def)
  show "vote_session_of M' = Some v' \<Longrightarrow> v' = vote_session_initialize (main_node M)"
    using assms restart run_role_session [of pr ops gen_range now _ vs M' b]
    by (cases M) (auto dest!: after_branch_session)
qed

text \<open>What a vote request was answered: a granted vote is an \<open>Ok\<close> in the voter's own name.\<close>

lemma turn_answer_sent:
  assumes "turn_answer ops now b M = Some (req, r)"
  shows "rvr_id r = nd_id (main_node M)" "rvr_vote_granted r \<Longrightarrow> \<not> steps_down r"
proof -
  from assms have answer: "rpc_answer ops now b (main_node M) = Some (req, r)"
    by (simp add: turn_answer_def split: if_splits)
  obtain tx n0 n' where run: "respond_to_request_vote ops req tx n0 = (Ok r, n')"
    and id: "nd_id n0 = nd_id (main_node M)"
    by (rule rpc_answer_run [OF answer])
  show "rvr_id r = nd_id (main_node M)" using vote_reply_term [OF run] id by simp
  show "rvr_vote_granted r \<Longrightarrow> \<not> steps_down r"
    using vote_reply_reason(1) [OF run] by (simp add: steps_down_def)
qed

section \<open>The tasks of a session\<close>

text \<open>Asking the peers leaves at most the result that there are none.\<close>

definition lone_result :: "('s, 'r) state_ops \<Rightarrow> ('s, 'r) raft_node \<Rightarrow> vote_result set" where
  "lone_result ops n = (if other_members ops n = {} then {NoPeers} else {})"

lemma get_unack_peers_tally:
  "tally_kept (lone_result ops (vs_node v)) v (snd (get_unack_peers ops v))"
  by (auto simp: get_unack_peers_def Let_def tally_kept_def lone_result_def then_c_def bind_c_def
      on_vote_result_def zoom_c_def channel_send_def return_c_def
      split: prod.split outcome.split receiver.split)

fun is_vote_answer :: "step_label \<Rightarrow> bool" where
  "is_vote_answer (VoteAnswer r) = True"
| "is_vote_answer _ = False"

lemma task_quiet:
  assumes step: "node_step pr ops gen_range M l M'" and l: "\<not> is_turn l" "\<not> is_vote_answer l"
  shows "quiet (lone_result ops (main_node M)) M M'"
proof (rule quietI)
  show "node_frame (result_waiting M \<and> is_turn l) (may_drop l (main_node M)) False
      (main_node M) (main_node M')"
    using node_step_frame [OF step] l(1) by simp
next
  fix v' assume v': "vote_session_of M' = Some v'"
  have kept: "\<exists>v. vote_session_of M = Some v \<and> tally_kept (lone_result ops (main_node M)) v v'"
    if "M' = put_node n M \<or> M' = put_replication_session s M" for n s
    using that v' by auto
  from step show "\<exists>v. vote_session_of M = Some v \<and> tally_kept (lone_result ops (main_node M)) v v'"
  proof cases
    case (ask_peers v put r w)
    from \<open>in_vote_session v put M\<close> consider
        "vote_session_of M = Some v" "M' = put_vote_session w M" | "M' = put_node (vs_node w) M"
      using ask_peers by (auto simp: in_vote_session_def)
    then show ?thesis
    proof cases
      case 1
      have "vote_session_of (put_vote_session w M) = Some v'" using v' 1(2) by simp
      with 1(1) have "v' = w" by simp
      with 1(1) ask_peers get_unack_peers_tally [of ops v] show ?thesis
        by (simp add: session_of_node)
    qed (use kept in blast)
  qed (use l kept in \<open>auto simp: in_replication_session_def\<close>)
qed simp

section \<open>Counting\<close>

definition counts :: "request_vote_response \<Rightarrow> bool" where
  "counts r \<longleftrightarrow> \<not> steps_down r \<and> rvr_vote_granted r"

lemma on_vote_response_tally:
  assumes "on_vote_response ops m r v = (res, v')"
  shows "vs_granted_votes v' = vs_granted_votes v + (if counts r then 1 else 0)"
    "set (ch_queue (vs_vote_result v')) \<subseteq> set (ch_queue (vs_vote_result v)) \<union>
       (if counts r \<and> (m + 1) div 2 < vs_granted_votes v' then {Granted} else {})"
proof -
  have "vs_granted_votes v' = vs_granted_votes v + (if counts r then 1 else 0) \<and>
    set (ch_queue (vs_vote_result v')) \<subseteq> set (ch_queue (vs_vote_result v)) \<union>
       (if counts r \<and> (m + 1) div 2 < vs_granted_votes v' then {Granted} else {})"
  proof (cases "steps_down r")
    case True
    obtain o' n' where "update_current_term ops (rvr_term r) (vs_node v) = (o', n')" by force
    with True assms show ?thesis
      by (cases o') (auto simp: on_vote_response_def counts_def steps_down_def on_vs_node_def
          outcome_simps bind_c_def)
  next
    case False
    with assms show ?thesis
      by (auto simp: on_vote_response_def counts_def steps_down_def on_vote_result_def Let_def
          channel_send_def outcome_simps bind_c_def split: if_splits receiver.splits)
  qed
  then show "vs_granted_votes v' = vs_granted_votes v + (if counts r then 1 else 0)"
    "set (ch_queue (vs_vote_result v')) \<subseteq> set (ch_queue (vs_vote_result v)) \<union>
       (if counts r \<and> (m + 1) div 2 < vs_granted_votes v' then {Granted} else {})"
    by blast+
qed

end
