(* ===== verification/Ballot.thy ===== *)
theory Ballot
  imports Vote_Session
begin

text \<open>
  What an election promises, with no node, message or clock in it: an electorate, the one choice
  each voter has made per term, and who has been elected. A cluster of nodes refines this machine
  (theory Cluster).
\<close>

record ballot =
  bl_choice :: "node_id \<Rightarrow> u64 \<Rightarrow> node_id option"
  bl_elected :: "(u64 \<times> node_id) set"

definition ballot_empty :: ballot where
  "ballot_empty = \<lparr>bl_choice = (\<lambda>_ _. None), bl_elected = {}\<rparr>"

text \<open>A voter of \<open>Mem\<close> chooses once per term; a member is elected by a quorum, or as the only member.\<close>

definition chosen_by_quorum :: "node_id set \<Rightarrow> ballot \<Rightarrow> u64 \<Rightarrow> node_id \<Rightarrow> bool" where
  "chosen_by_quorum Mem B t c \<longleftrightarrow>
     (\<exists>Q. vote_quorum Mem Q \<and> (\<forall>v \<in> Q. bl_choice B v t = Some c))"

inductive ballot_step :: "node_id set \<Rightarrow> ballot \<Rightarrow> ballot \<Rightarrow> bool" for Mem where
  cast: "v \<in> Mem \<Longrightarrow> bl_choice B v t = None \<Longrightarrow>
    ballot_step Mem B (B\<lparr>bl_choice := (bl_choice B)(v := (bl_choice B v)(t := Some c))\<rparr>)"
| elect: "c \<in> Mem \<Longrightarrow> Mem = {c} \<or> chosen_by_quorum Mem B t c \<Longrightarrow>
    ballot_step Mem B (B\<lparr>bl_elected := insert (t, c) (bl_elected B)\<rparr>)"

definition ballot_ok :: "node_id set \<Rightarrow> ballot \<Rightarrow> bool" where
  "ballot_ok Mem B \<longleftrightarrow>
     (\<forall>t c. (t, c) \<in> bl_elected B \<longrightarrow> c \<in> Mem \<and> (Mem = {c} \<or> chosen_by_quorum Mem B t c))"

text \<open>A choice once made stays.\<close>

lemma chosen_by_quorum_cast:
  assumes "chosen_by_quorum Mem B t' c'" and "bl_choice B v t = None"
  shows "chosen_by_quorum Mem (B\<lparr>bl_choice := (bl_choice B)(v := (bl_choice B v)(t := Some c))\<rparr>) t' c'"
  using assms by (fastforce simp: chosen_by_quorum_def)

lemma ballot_step_ok:
  assumes "ballot_step Mem B B'" and "ballot_ok Mem B"
  shows "ballot_ok Mem B'"
  using assms(1)
proof cases
  case (cast v t c)
  have "bl_elected B' = bl_elected B" using cast(1) by simp
  with assms(2) chosen_by_quorum_cast [OF _ cast(3)] cast(1) show ?thesis
    unfolding ballot_ok_def by metis
next
  case (elect c t)
  have "chosen_by_quorum Mem (B\<lparr>bl_elected := E\<rparr>) = chosen_by_quorum Mem B" for E
    by (simp add: chosen_by_quorum_def fun_eq_iff)
  with elect assms(2) show ?thesis by (auto simp: ballot_ok_def)
qed

lemma ballot_steps_ok: "(ballot_step Mem)\<^sup>*\<^sup>* B B' \<Longrightarrow> ballot_ok Mem B \<Longrightarrow> ballot_ok Mem B'"
  by (induction rule: rtranclp_induct) (auto intro: ballot_step_ok)

lemma chosen_by_quorum_stays:
  assumes "(ballot_step Mem)\<^sup>*\<^sup>* B B'" and "chosen_by_quorum Mem B t c"
  shows "chosen_by_quorum Mem B' t c"
  using assms
proof (induction rule: rtranclp_induct)
  case (step B1 B2)
  from step(2) show ?case
  proof cases
    case (cast v t' c')
    with chosen_by_quorum_cast [OF step.IH [OF step.prems] cast(3)] show ?thesis by simp
  next
    case elect
    with step.IH [OF step.prems] show ?thesis by (simp add: chosen_by_quorum_def)
  qed
qed

lemma ballot_empty_ok: "ballot_ok Mem ballot_empty"
  by (simp add: ballot_ok_def ballot_empty_def)

lemma ballot_one_winner:
  assumes "ballot_ok Mem B" and "(t, c) \<in> bl_elected B" and "(t, d) \<in> bl_elected B"
  shows "c = d"
proof -
  have "c \<in> Mem" "d \<in> Mem" "Mem = {c} \<or> chosen_by_quorum Mem B t c"
    "Mem = {d} \<or> chosen_by_quorum Mem B t d"
    using assms unfolding ballot_ok_def by blast+
  then show ?thesis
  proof (elim disjE)
    assume "chosen_by_quorum Mem B t c" "chosen_by_quorum Mem B t d"
    then obtain Q Q' where "vote_quorum Mem Q" "vote_quorum Mem Q'"
      "\<And>v. v \<in> Q \<Longrightarrow> bl_choice B v t = Some c" "\<And>v. v \<in> Q' \<Longrightarrow> bl_choice B v t = Some d"
      unfolding chosen_by_quorum_def by blast
    then show ?thesis by (rule votes.one_choice)
  qed auto
qed

end
