(* ===== verification/Cluster.thy ===== *)
theory Cluster
  imports Sessions Ballot Node_Relations
begin

text \<open>
  Nodes that ask each other for votes. A step of the cluster is a step of one node's machine
  (theory Node_System), with the vote messages between nodes made explicit: a request a session
  sends is one the candidate composed, a request a voter answers is one that was sent to it, and
  an answer a session reads is one a voter gave. Messages may be delayed, reordered, lost, and a
  request delivered twice; they are not forged, and an answer is read once. All else - append
  requests and their answers, client requests, shutdowns, closed channels, the clocks - is left
  to chance.

  Beside the nodes' main loops the record keeps what happened: the votes cast, the messages
  under way, the term of the last session each node opened with the voters counted in it, and
  who became leader.
\<close>

section \<open>The cluster\<close>

text \<open>A vote request under way: voter, candidate, the term of the session that asks, the message.\<close>

type_synonym asked = "node_id \<times> node_id \<times> u64 \<times> request_vote_request"

record ('s, 'r) cluster =
  cl_main :: "node_id \<Rightarrow> ('s, 'r) main_task"
  cl_votes :: "node_id \<Rightarrow> vote list"
  cl_session :: "node_id \<Rightarrow> u64"
  cl_counted :: "node_id \<Rightarrow> node_id set"
  cl_requests :: "asked set"
  cl_answers :: "(asked \<times> request_vote_response) set"
  cl_elected :: "vote set"

definition cl_node :: "('s, 'r) cluster \<Rightarrow> node_id \<Rightarrow> ('s, 'r) raft_node" where
  "cl_node C i = main_node (cl_main C i)"

definition moved :: "node_id \<Rightarrow> ('s, 'r) main_task \<Rightarrow> vote list \<Rightarrow> ('s, 'r) cluster \<Rightarrow> ('s, 'r) cluster" where
  "moved i M' vs C =
     C\<lparr>cl_main := (cl_main C)(i := M'), cl_votes := (cl_votes C)(i := cl_votes C i @ vs)\<rparr>"

text \<open>A turn that opened a session, and one in which a candidate became leader of its term.\<close>

definition session_opened :: "node_id \<Rightarrow> ('s, 'r) cluster \<Rightarrow> ('s, 'r) cluster" where
  "session_opened i C =
     C\<lparr>cl_session := (cl_session C)(i := nd_current_term (cl_node C i)),
       cl_counted := (cl_counted C)(i := {})\<rparr>"

definition promoted :: "('s, 'r) main_task \<Rightarrow> ('s, 'r) main_task \<Rightarrow> bool" where
  "promoted M M' \<longleftrightarrow>
     nd_current_state (main_node M) = Candidate \<and> nd_current_state (main_node M') = Leader"

definition leader_made :: "node_id \<Rightarrow> ('s, 'r) main_task \<Rightarrow> ('s, 'r) cluster \<Rightarrow> ('s, 'r) cluster" where
  "leader_made i M C =
     (if promoted M (cl_main C i)
      then C\<lparr>cl_elected := insert (nd_current_term (main_node M), i) (cl_elected C)\<rparr> else C)"

text \<open>The answer \<open>r\<close> counted by the candidate of \<open>a\<close>.\<close>

fun answer_read :: "asked \<Rightarrow> request_vote_response \<Rightarrow> ('s, 'r) cluster \<Rightarrow> ('s, 'r) cluster" where
  "answer_read (p, j, st, req) r C =
     C\<lparr>cl_answers := cl_answers C - {((p, j, st, req), r)},
       cl_counted := (cl_counted C)(j :=
         if counts r \<and> rv_term req = cl_session C j then insert p (cl_counted C j)
         else cl_counted C j)\<rparr>"

text \<open>
  \<open>keep\<close> is asked of every step, as a relation between the stepping node before it and after it.
\<close>

inductive cluster_step ::
    "profile \<Rightarrow> ('s, 'r) state_ops \<Rightarrow> (u64 \<Rightarrow> u64 \<Rightarrow> u64)
       \<Rightarrow> (('s, 'r) raft_node \<Rightarrow> ('s, 'r) raft_node \<Rightarrow> bool) \<Rightarrow> node_id set
       \<Rightarrow> ('s, 'r) cluster \<Rightarrow> ('s, 'r) cluster \<Rightarrow> bool"
  for pr ops gen_range keep Mem where
  turn: "i \<in> Mem \<Longrightarrow> main_turn pr ops gen_range now b (cl_main C i) = (vs, M') \<Longrightarrow>
    \<not> opens_session gen_range now b (cl_main C i) \<Longrightarrow>
    turn_answer ops now b (cl_main C i) = None \<Longrightarrow> keep (cl_node C i) (main_node M') \<Longrightarrow>
    cluster_step pr ops gen_range keep Mem C (leader_made i (cl_main C i) (moved i M' vs C))"
| session_turn: "i \<in> Mem \<Longrightarrow> main_turn pr ops gen_range now b (cl_main C i) = (vs, M') \<Longrightarrow>
    opens_session gen_range now b (cl_main C i) \<Longrightarrow> keep (cl_node C i) (main_node M') \<Longrightarrow>
    cluster_step pr ops gen_range keep Mem C (session_opened i (moved i M' vs C))"
| answering: "i \<in> Mem \<Longrightarrow> main_turn pr ops gen_range now b (cl_main C i) = (vs, M') \<Longrightarrow>
    turn_answer ops now b (cl_main C i) = Some (req, r) \<Longrightarrow>
    (i, j, st, req) \<in> cl_requests C \<Longrightarrow> keep (cl_node C i) (main_node M') \<Longrightarrow>
    C' = moved i M' vs C \<Longrightarrow>
    cluster_step pr ops gen_range keep Mem C
      (C'\<lparr>cl_answers := insert ((i, j, st, req), r) (cl_answers C')\<rparr>)"
| asking: "j \<in> Mem \<Longrightarrow> p \<in> other_members ops (cl_node C j) \<Longrightarrow> (st, j) \<in> set (cl_votes C j) \<Longrightarrow>
    emit_request_vote ops p (cl_node C j) = (Ok (), n') \<Longrightarrow>
    C' = moved j (put_node n' (cl_main C j)) [] C \<Longrightarrow>
    cluster_step pr ops gen_range keep Mem C
      (C'\<lparr>cl_requests := insert (p, j, st, request_vote_request_of ops (cl_node C j)) (cl_requests C')\<rparr>)"
| reading: "((p, j, st, req), r) \<in> cl_answers C \<Longrightarrow> st = cl_session C j \<Longrightarrow>
    vote_session_of (cl_main C j) = Some v \<Longrightarrow>
    on_vote_response ops (length (get_membership ops (nd_state (vs_node v)))) r v = (res, v') \<Longrightarrow>
    keep (cl_node C j) (vs_node v') \<Longrightarrow>
    cluster_step pr ops gen_range keep Mem C
      (answer_read (p, j, st, req) r (moved j (put_vote_session v' (cl_main C j)) [] C))"
| reading_late: "((p, j, st, req), r) \<in> cl_answers C \<Longrightarrow> vs_node v = cl_node C j \<Longrightarrow>
    on_vote_response ops (length (get_membership ops (nd_state (vs_node v)))) r v = (res, v') \<Longrightarrow>
    keep (cl_node C j) (vs_node v') \<Longrightarrow>
    C' = moved j (put_node (vs_node v') (cl_main C j)) [] C \<Longrightarrow>
    cluster_step pr ops gen_range keep Mem C (C'\<lparr>cl_answers := cl_answers C' - {((p, j, st, req), r)}\<rparr>)"
| losing: "a \<in> cl_answers C \<Longrightarrow>
    cluster_step pr ops gen_range keep Mem C (C\<lparr>cl_answers := cl_answers C - {a}\<rparr>)"
| other: "i \<in> Mem \<Longrightarrow> node_step pr ops gen_range (cl_main C i) l M' \<Longrightarrow>
    \<not> is_turn l \<Longrightarrow> \<not> is_vote_answer l \<Longrightarrow> keep (cl_node C i) (main_node M') \<Longrightarrow>
    cluster_step pr ops gen_range keep Mem C (moved i M' [] C)"

text \<open>
  A cluster at its start: the members \<open>Mem\<close>, each with its own id and the same membership, none
  with a vote session open, nothing under way.
\<close>

definition cluster_starts :: "('s, 'r) state_ops \<Rightarrow> node_id set \<Rightarrow> ('s, 'r) cluster \<Rightarrow> bool" where
  "cluster_starts ops Mem C \<longleftrightarrow>
     (\<forall>i \<in> Mem. nd_id (cl_node C i) = i \<and> member_ids ops (cl_node C i) = Mem \<and>
        is_hashmap (get_membership ops (nd_state (cl_node C i))) \<and>
        vote_session_of (cl_main C i) = None \<and> cl_votes C i = []) \<and>
     (\<forall>i. cl_counted C i = {}) \<and> cl_requests C = {} \<and> cl_answers C = {} \<and> cl_elected C = {}"

definition cluster_run ::
    "profile \<Rightarrow> ('s, 'r) state_ops \<Rightarrow> (u64 \<Rightarrow> u64 \<Rightarrow> u64)
       \<Rightarrow> (('s, 'r) raft_node \<Rightarrow> ('s, 'r) raft_node \<Rightarrow> bool) \<Rightarrow> node_id set
       \<Rightarrow> ('s, 'r) cluster \<Rightarrow> ('s, 'r) cluster \<Rightarrow> bool" where
  "cluster_run pr ops gen_range keep Mem = (cluster_step pr ops gen_range keep Mem)\<^sup>*\<^sup>*"

lemma cluster_run_trans:
  "cluster_run pr ops gen_range keep Mem C C1 \<Longrightarrow> cluster_run pr ops gen_range keep Mem C1 C2 \<Longrightarrow>
     cluster_run pr ops gen_range keep Mem C C2"
  unfolding cluster_run_def by (rule rtranclp_trans)

section \<open>What a run keeps\<close>

definition standing :: "('s, 'r) cluster \<Rightarrow> node_id \<Rightarrow> bool" where
  "standing C j \<longleftrightarrow>
     vote_session_of (cl_main C j) \<noteq> None \<and> nd_current_state (cl_node C j) = Candidate"

definition members_ok :: "('s, 'r) state_ops \<Rightarrow> node_id set \<Rightarrow> ('s, 'r) cluster \<Rightarrow> bool" where
  "members_ok ops Mem C \<longleftrightarrow>
     (\<forall>i \<in> Mem. nd_id (cl_node C i) = i \<and> member_ids ops (cl_node C i) = Mem \<and>
        is_hashmap (get_membership ops (nd_state (cl_node C i))))"

definition cast_ok :: "node_id set \<Rightarrow> ('s, 'r) cluster \<Rightarrow> bool" where
  "cast_ok Mem C \<longleftrightarrow> (\<forall>i \<in> Mem. votes_ok (cl_votes C i) (cl_node C i))"

text \<open>What a standing candidate's present session asked for is a vote in its term.\<close>

definition requests_ok :: "node_id set \<Rightarrow> ('s, 'r) cluster \<Rightarrow> bool" where
  "requests_ok Mem C \<longleftrightarrow>
     (\<forall>p j st req. (p, j, st, req) \<in> cl_requests C \<longrightarrow>
        p \<in> Mem \<and> j \<in> Mem \<and> p \<noteq> j \<and> rv_candidate_id req = j \<and> st \<le> nd_current_term (cl_node C j) \<and>
        (st = cl_session C j \<and> standing C j \<longrightarrow> rv_term req = st))"

text \<open>A granted answer stands for a vote that was cast, and that was not counted yet.\<close>

definition answers_ok :: "('s, 'r) cluster \<Rightarrow> bool" where
  "answers_ok C \<longleftrightarrow>
     (\<forall>p j st req r. ((p, j, st, req), r) \<in> cl_answers C \<longrightarrow> (p, j, st, req) \<in> cl_requests C \<and>
        (rvr_vote_granted r \<longrightarrow> \<not> steps_down r \<and> (rv_term req, j) \<in> set (cl_votes C p) \<and>
           (rv_term req = cl_session C j \<longrightarrow> p \<notin> cl_counted C j)))"

definition answers_once :: "('s, 'r) cluster \<Rightarrow> bool" where
  "answers_once C \<longleftrightarrow>
     (\<forall>p j st req r st' req' r'. ((p, j, st, req), r) \<in> cl_answers C \<longrightarrow>
        ((p, j, st', req'), r') \<in> cl_answers C \<longrightarrow> rvr_vote_granted r \<longrightarrow> rvr_vote_granted r' \<longrightarrow>
        rv_term req = rv_term req' \<longrightarrow> st = st' \<and> req = req' \<and> r = r')"

definition counted_ok :: "node_id set \<Rightarrow> ('s, 'r) cluster \<Rightarrow> bool" where
  "counted_ok Mem C \<longleftrightarrow>
     (\<forall>j p. p \<in> cl_counted C j \<longrightarrow> p \<in> Mem \<and> p \<noteq> j \<and> (cl_session C j, j) \<in> set (cl_votes C p))"

text \<open>
  The tally of a standing candidate: it stands in its session's term, voted for itself there,
  has counted one vote per voter counted, and announces only what the count warrants.
\<close>

definition tally_right :: "node_id set \<Rightarrow> ('s, 'r) cluster \<Rightarrow> node_id \<Rightarrow> ('s, 'r) vote_session \<Rightarrow> bool" where
  "tally_right Mem C j v \<longleftrightarrow>
     nd_current_term (cl_node C j) = cl_session C j \<and> (cl_session C j, j) \<in> set (cl_votes C j) \<and>
     vs_granted_votes v = 1 + card (cl_counted C j) \<and>
     (Granted \<in> set (ch_queue (vs_vote_result v)) \<longrightarrow> (card Mem + 1) div 2 < vs_granted_votes v) \<and>
     (NoPeers \<in> set (ch_queue (vs_vote_result v)) \<longrightarrow> Mem = {j})"

definition tally_ok :: "node_id set \<Rightarrow> ('s, 'r) cluster \<Rightarrow> bool" where
  "tally_ok Mem C \<longleftrightarrow>
     (\<forall>j \<in> Mem. \<forall>v. vote_session_of (cl_main C j) = Some v \<longrightarrow>
        nd_current_state (cl_node C j) = Candidate \<longrightarrow> tally_right Mem C j v)"

definition cluster_ok :: "('s, 'r) state_ops \<Rightarrow> node_id set \<Rightarrow> ('s, 'r) cluster \<Rightarrow> bool" where
  "cluster_ok ops Mem C \<longleftrightarrow>
     members_ok ops Mem C \<and> cast_ok Mem C \<and> requests_ok Mem C \<and> answers_ok C \<and> answers_once C \<and>
     counted_ok Mem C \<and> tally_ok Mem C"

lemmas cluster_ok_defs =
  members_ok_def cast_ok_def requests_ok_def answers_ok_def answers_once_def counted_ok_def tally_ok_def

lemma request_parties:
  assumes "cluster_ok ops Mem C" and "(p, j, st, req) \<in> cl_requests C"
  shows "p \<in> Mem" "j \<in> Mem" "p \<noteq> j" "rv_candidate_id req = j"
  using assms unfolding cluster_ok_def requests_ok_def by blast+

lemma answer_asked:
  assumes "cluster_ok ops Mem C" and "((p, j, st, req), r) \<in> cl_answers C"
  shows "(p, j, st, req) \<in> cl_requests C"
  using assms unfolding cluster_ok_def answers_ok_def by blast

lemma cluster_starts_ok: "cluster_starts ops Mem C \<Longrightarrow> cluster_ok ops Mem C"
  by (simp add: cluster_starts_def cluster_ok_def cluster_ok_defs)

lemma moved_sel [simp]:
  "cl_node (moved i M' vs C) j = (if j = i then main_node M' else cl_node C j)"
  "cl_main (moved i M' vs C) = (cl_main C)(i := M')"
  "cl_votes (moved i M' vs C) j = (if j = i then cl_votes C i @ vs else cl_votes C j)"
  "cl_session (moved i M' vs C) = cl_session C" "cl_counted (moved i M' vs C) = cl_counted C"
  "cl_requests (moved i M' vs C) = cl_requests C" "cl_answers (moved i M' vs C) = cl_answers C"
  "cl_elected (moved i M' vs C) = cl_elected C"
  by (simp_all add: moved_def cl_node_def)

lemma answers_upd [simp]:
  "cl_node (C\<lparr>cl_answers := A\<rparr>) = cl_node C" "standing (C\<lparr>cl_answers := A\<rparr>) = standing C"
  "members_ok ops Mem (C\<lparr>cl_answers := A\<rparr>) = members_ok ops Mem C"
  "cast_ok Mem (C\<lparr>cl_answers := A\<rparr>) = cast_ok Mem C"
  "requests_ok Mem (C\<lparr>cl_answers := A\<rparr>) = requests_ok Mem C"
  "counted_ok Mem (C\<lparr>cl_answers := A\<rparr>) = counted_ok Mem C"
  "tally_ok Mem (C\<lparr>cl_answers := A\<rparr>) = tally_ok Mem C"
  by (simp_all add: cluster_ok_defs tally_right_def standing_def cl_node_def fun_eq_iff)

lemma requests_upd [simp]:
  "cl_node (C\<lparr>cl_requests := R\<rparr>) = cl_node C" "standing (C\<lparr>cl_requests := R\<rparr>) = standing C"
  "members_ok ops Mem (C\<lparr>cl_requests := R\<rparr>) = members_ok ops Mem C"
  "cast_ok Mem (C\<lparr>cl_requests := R\<rparr>) = cast_ok Mem C"
  "answers_once (C\<lparr>cl_requests := R\<rparr>) = answers_once C"
  "counted_ok Mem (C\<lparr>cl_requests := R\<rparr>) = counted_ok Mem C"
  "tally_ok Mem (C\<lparr>cl_requests := R\<rparr>) = tally_ok Mem C"
  by (simp_all add: cluster_ok_defs tally_right_def standing_def cl_node_def fun_eq_iff)

lemma members_ok_card:
  "members_ok ops Mem C \<Longrightarrow> i \<in> Mem \<Longrightarrow>
     length (get_membership ops (nd_state (cl_node C i))) = card Mem \<and> finite Mem"
  unfolding members_ok_def member_ids_def is_hashmap_def
  by (metis List.finite_set distinct_card finite_imageI length_map list.set_map)

section \<open>Every step keeps it\<close>

text \<open>What the machine of one node gives for any step of it.\<close>

definition node_moves ::
    "('s, 'r) state_ops \<Rightarrow> node_id set \<Rightarrow> ('s, 'r) cluster \<Rightarrow> node_id \<Rightarrow> vote list \<Rightarrow> ('s, 'r) main_task \<Rightarrow> bool" where
  "node_moves ops Mem C i vs M' \<longleftrightarrow>
     i \<in> Mem \<and> nd_id (main_node M') = nd_id (cl_node C i) \<and> term_kept (cl_node C i) (main_node M') \<and>
     get_membership ops (nd_state (main_node M')) = get_membership ops (nd_state (cl_node C i)) \<and>
     votes_ok (cl_votes C i @ vs) (main_node M')"

lemma node_step_moves:
  assumes "cluster_ok ops Mem C" and "i \<in> Mem" and "node_step pr ops gen_range (cl_main C i) l M'"
    and "term_kept (cl_node C i) (main_node M')" and "fixed_membership ops" and "votes_of l = vs"
  shows "node_moves ops Mem C i vs M'"
proof -
  have "votes_ok (cl_votes C i @ votes_of l) (main_node M')"
    by (rule node_step_votes_ok [OF assms(3)])
      (use assms in \<open>simp_all add: cluster_ok_def cast_ok_def cl_node_def\<close>)
  with node_step_frame [OF assms(3)] fixed_membership.members_stay [OF assms(5,3)] assms show ?thesis
    by (simp add: node_moves_def node_frame_def cl_node_def)
qed

lemma moved_members: "members_ok ops Mem C \<Longrightarrow> node_moves ops Mem C i vs M' \<Longrightarrow> members_ok ops Mem (moved i M' vs C)"
  by (auto simp: members_ok_def node_moves_def member_ids_def)

lemma moved_cast: "cast_ok Mem C \<Longrightarrow> node_moves ops Mem C i vs M' \<Longrightarrow> cast_ok Mem (moved i M' vs C)"
  by (simp add: cast_ok_def node_moves_def)

lemma moved_answers:
  "answers_ok C \<Longrightarrow> answers_ok (moved i M' vs C)" "answers_once C \<Longrightarrow> answers_once (moved i M' vs C)"
  "counted_ok Mem C \<Longrightarrow> counted_ok Mem (moved i M' vs C)"
  by (fastforce simp: answers_ok_def, simp add: answers_once_def, fastforce simp: counted_ok_def)

lemma moved_requests:
  assumes "requests_ok Mem C" and "node_moves ops Mem C i vs M'" and "quiet X (cl_main C i) M'"
  shows "requests_ok Mem (moved i M' vs C)"
proof -
  have up: "nd_current_term (cl_node C i) \<le> nd_current_term (main_node M')"
    using assms(2) by (simp add: node_moves_def term_kept_def)
  have stands: "standing C j" if "standing (moved i M' vs C) j" for j
    using that assms(3) by (cases "j = i") (auto simp: standing_def quiet_def cl_node_def)
  show ?thesis
    using assms(1) order.trans [OF _ up] stands unfolding requests_ok_def by fastforce
qed

lemma moved_tally:
  assumes "tally_ok Mem C" and quiet: "quiet X (cl_main C i) M'"
    and X: "Granted \<notin> X" "NoPeers \<in> X \<Longrightarrow> Mem = {i}"
  shows "tally_ok Mem (moved i M' vs C)"
  unfolding tally_ok_def
proof (intro ballI allI impI)
  fix j v'
  assume j: "j \<in> Mem" and v': "vote_session_of (cl_main (moved i M' vs C) j) = Some v'"
    and state: "nd_current_state (cl_node (moved i M' vs C) j) = Candidate"
  show "tally_right Mem (moved i M' vs C) j v'"
  proof (cases "j = i")
    case True
    with v' state quiet obtain v where v: "vote_session_of (cl_main C i) = Some v" "tally_kept X v v'"
      "nd_current_state (cl_node C i) = Candidate" "nd_current_term (main_node M') = nd_current_term (cl_node C i)"
      by (auto simp: quiet_def cl_node_def)
    with assms(1) j True have "tally_right Mem C i v" by (simp add: tally_ok_def)
    with v X True show ?thesis by (auto simp: tally_right_def tally_kept_def)
  next
    case False
    with v' state j assms(1) have "tally_right Mem C j v'" by (simp add: tally_ok_def)
    with False show ?thesis unfolding tally_right_def by auto
  qed
qed

lemma moved_ok:
  assumes ok: "cluster_ok ops Mem C" and moves: "node_moves ops Mem C i vs M'"
    and quiet: "quiet X (cl_main C i) M'" and X: "Granted \<notin> X" "NoPeers \<in> X \<Longrightarrow> Mem = {i}"
  shows "cluster_ok ops Mem (moved i M' vs C)"
  using ok moved_members [OF _ moves] moved_cast [OF _ moves] moved_answers
    moved_requests [OF _ moves quiet] moved_tally [OF _ quiet X]
  unfolding cluster_ok_def by blast

text \<open>A session opened: the next term is new, so nothing asked or counted before belongs to it.\<close>

lemma opened_sel [simp]:
  "cl_node (session_opened i C) = cl_node C" "cl_main (session_opened i C) = cl_main C"
  "cl_votes (session_opened i C) = cl_votes C" "cl_requests (session_opened i C) = cl_requests C"
  "cl_answers (session_opened i C) = cl_answers C" "cl_elected (session_opened i C) = cl_elected C"
  "cl_session (session_opened i C) j = (if j = i then nd_current_term (cl_node C i) else cl_session C j)"
  "cl_counted (session_opened i C) j = (if j = i then {} else cl_counted C j)"
  by (simp_all add: session_opened_def cl_node_def fun_eq_iff)

lemma opened_ok:
  assumes ok: "cluster_ok ops Mem C" and moves: "node_moves ops Mem C i vs M'"
    and node: "main_node M' = vs_node (vote_session_initialize (cl_node C i))"
    and session: "\<And>v. vote_session_of M' = Some v \<Longrightarrow> v = vote_session_initialize (cl_node C i)"
    and vs: "vs = [self_vote (cl_node C i)]"
  shows "cluster_ok ops Mem (session_opened i (moved i M' vs C))"
proof -
  let ?C = "session_opened i (moved i M' vs C)" and ?t = "nd_current_term (cl_node C i)"
  have i: "i \<in> Mem" using moves by (simp add: node_moves_def)
  have id: "nd_id (cl_node C i) = i" using ok i by (simp add: cluster_ok_def members_ok_def)
  have new: "nd_current_term (main_node M') = ?t + 1" by (simp add: node)
  have up: "?t \<le> ?t + 1"
    using moves new by (simp add: node_moves_def term_kept_def)
  have less: "?t < ?t + 1"
    by (rule u64_less_plus_one) (use up word_le_0_iff in fastforce)
  have mem: "members_ok ops Mem ?C" "cast_ok Mem ?C"
    using moved_members [OF _ moves] moved_cast [OF _ moves] ok
    by (simp_all add: cluster_ok_def members_ok_def cast_ok_def)
  have req: "requests_ok Mem ?C"
    unfolding requests_ok_def
  proof (intro allI impI)
    fix p j st req assume "(p, j, st, req) \<in> cl_requests ?C"
    with ok have old: "p \<in> Mem" "j \<in> Mem" "p \<noteq> j" "rv_candidate_id req = j" "st \<le> nd_current_term (cl_node C j)"
      "st = cl_session C j \<and> standing C j \<longrightarrow> rv_term req = st"
      by (auto simp: cluster_ok_def requests_ok_def)
    have "st < ?t + 1" if "j = i" using order.strict_trans1 [OF _ less] old(5) that by blast
    then have "j = i \<Longrightarrow> st \<noteq> ?t + 1" "j = i \<Longrightarrow> st \<le> ?t + 1" by auto
    with old new show "p \<in> Mem \<and> j \<in> Mem \<and> p \<noteq> j \<and> rv_candidate_id req = j \<and>
        st \<le> nd_current_term (cl_node ?C j) \<and> (st = cl_session ?C j \<and> standing ?C j \<longrightarrow> rv_term req = st)"
      by (auto simp: standing_def)
  qed
  have ans: "answers_ok ?C" "answers_once ?C" "counted_ok Mem ?C"
    using ok moved_answers(1) [of C i M' vs] moved_answers(2) [of C i M' vs] moved_answers(3) [of Mem C i M' vs]
    by (auto simp: cluster_ok_def answers_ok_def answers_once_def counted_ok_def)
  have "tally_ok Mem ?C"
    unfolding tally_ok_def
  proof (intro ballI allI impI)
    fix j v
    assume j: "j \<in> Mem" and v: "vote_session_of (cl_main ?C j) = Some v"
      and state: "nd_current_state (cl_node ?C j) = Candidate"
    show "tally_right Mem ?C j v"
    proof (cases "j = i")
      case True
      with v session have "v = vote_session_initialize (cl_node C i)" by simp
      with True vs new id show ?thesis by (simp add: tally_right_def self_vote_def)
    next
      case False
      with v state j ok have "tally_right Mem C j v" by (simp add: cluster_ok_def tally_ok_def)
      with False show ?thesis unfolding tally_right_def by auto
    qed
  qed
  with mem req ans show ?thesis by (simp add: cluster_ok_def)
qed

text \<open>A granted answer put under way: the vote is new, so no answer before it speaks of that vote.\<close>

lemma answered_ok:
  assumes ok: "cluster_ok ops Mem C" and ok': "cluster_ok ops Mem (moved i M' vs C)"
    and asked: "(i, j, st, req) \<in> cl_requests C"
    and vs: "vs = (if rvr_vote_granted r then [(rv_term req, j)] else [])"
    and down: "rvr_vote_granted r \<Longrightarrow> \<not> steps_down r"
    and C': "C' = moved i M' vs C" and i: "i \<in> Mem"
  shows "cluster_ok ops Mem (C'\<lparr>cl_answers := insert ((i, j, st, req), r) (cl_answers C')\<rparr>)"
proof -
  let ?C = "C'\<lparr>cl_answers := insert ((i, j, st, req), r) (cl_answers C')\<rparr>"
  have fresh: "(rv_term req, k) \<notin> set (cl_votes C i)" if "rvr_vote_granted r" for k
  proof
    assume "(rv_term req, k) \<in> set (cl_votes C i)"
    moreover have "distinct (map fst (cl_votes C i @ [(rv_term req, j)]))"
    proof -
      have "votes_ok (cl_votes (moved i M' vs C) i) (cl_node (moved i M' vs C) i)"
        using ok' i unfolding cluster_ok_def cast_ok_def by blast
      with that vs show ?thesis by (simp add: votes_ok_def)
    qed
    ultimately show False by (force simp: image_iff)
  qed
  have ans: "answers_ok ?C"
    unfolding answers_ok_def
  proof (intro allI impI)
    fix p k st' req' r'
    assume "((p, k, st', req'), r') \<in> cl_answers ?C"
    then consider "((p, k, st', req'), r') \<in> cl_answers C'" | "(p, k, st', req', r') = (i, j, st, req, r)"
      by auto
    then show "(p, k, st', req') \<in> cl_requests ?C \<and> (rvr_vote_granted r' \<longrightarrow>
        \<not> steps_down r' \<and> (rv_term req', k) \<in> set (cl_votes ?C p) \<and>
        (rv_term req' = cl_session ?C k \<longrightarrow> p \<notin> cl_counted ?C k))"
    proof cases
      case 1
      with ok' C' show ?thesis by (auto simp: cluster_ok_def answers_ok_def)
    next
      case 2
      moreover have "i \<notin> cl_counted C j" if "rvr_vote_granted r" "rv_term req = cl_session C j"
        using fresh [OF that(1)] that(2) ok by (auto simp: cluster_ok_def counted_ok_def)
      ultimately show ?thesis using asked vs down C' by auto
    qed
  qed
  have once: "answers_once ?C"
  proof -
    have "\<not> rvr_vote_granted r'" if "((i, j, st', req'), r') \<in> cl_answers C"
      "rvr_vote_granted r" "rv_term req' = rv_term req" for st' req' r'
    proof
      assume "rvr_vote_granted r'"
      with that(1) ok have "(rv_term req', j) \<in> set (cl_votes C i)"
        by (auto simp: cluster_ok_def answers_ok_def)
      with fresh [OF that(2)] that(3) show False by auto
    qed
    with ok C' show ?thesis unfolding cluster_ok_def answers_once_def by fastforce
  qed
  have "members_ok ops Mem ?C" "cast_ok Mem ?C" "requests_ok Mem ?C" "counted_ok Mem ?C" "tally_ok Mem ?C"
    using ok' C' by (simp_all add: cluster_ok_def)
  with ans once show ?thesis by (simp add: cluster_ok_def)
qed

lemma forgotten_ok:
  assumes "cluster_ok ops Mem C"
  shows "cluster_ok ops Mem (C\<lparr>cl_answers := cl_answers C - {a}\<rparr>)"
proof -
  have "answers_ok (C\<lparr>cl_answers := cl_answers C - {a}\<rparr>)"
    using assms by (fastforce simp: cluster_ok_def answers_ok_def)
  moreover have "answers_once (C\<lparr>cl_answers := cl_answers C - {a}\<rparr>)"
    using assms unfolding cluster_ok_def answers_once_def by simp blast
  ultimately show ?thesis using assms by (simp add: cluster_ok_def)
qed

lemma asked_ok:
  assumes ok: "cluster_ok ops Mem C" and ok': "cluster_ok ops Mem (moved j M' [] C)"
    and j: "j \<in> Mem" and p: "p \<in> other_members ops (cl_node C j)" and st: "(st, j) \<in> set (cl_votes C j)"
    and same: "nd_current_term (main_node M') = nd_current_term (cl_node C j)"
    and quiet: "quiet {} (cl_main C j) M'"
    and C': "C' = moved j M' [] C"
  shows "cluster_ok ops Mem
    (C'\<lparr>cl_requests := insert (p, j, st, request_vote_request_of ops (cl_node C j)) (cl_requests C')\<rparr>)"
proof -
  let ?req = "request_vote_request_of ops (cl_node C j)"
  let ?C = "C'\<lparr>cl_requests := insert (p, j, st, ?req) (cl_requests C')\<rparr>"
  have le: "st \<le> nd_current_term (cl_node C j)"
    using ok j st by (force simp: cluster_ok_def cast_ok_def votes_ok_def)
  have here: "nd_current_term (cl_node C j) = cl_session C j" if "standing C' j"
  proof -
    from that quiet obtain v where "vote_session_of (cl_main C j) = Some v"
      "nd_current_state (cl_node C j) = Candidate"
      by (auto simp: standing_def C' quiet_def cl_node_def)
    with ok j have "tally_right Mem C j v" by (simp add: cluster_ok_def tally_ok_def)
    then show ?thesis by (simp add: tally_right_def)
  qed
  have mem: "nd_id (cl_node C j) = j" "p \<in> Mem" "p \<noteq> j"
    using ok j p by (auto simp: cluster_ok_def members_ok_def other_members_def member_ids_def)
  have "requests_ok Mem ?C"
    unfolding requests_ok_def requests_upd
  proof (intro allI impI)
    fix p' j' st' req' assume "(p', j', st', req') \<in> cl_requests ?C"
    then consider "(p', j', st', req') \<in> cl_requests C'" | "(p', j', st', req') = (p, j, st, ?req)" by auto
    then show "p' \<in> Mem \<and> j' \<in> Mem \<and> p' \<noteq> j' \<and> rv_candidate_id req' = j' \<and>
        st' \<le> nd_current_term (cl_node C' j') \<and>
        (st' = cl_session ?C j' \<and> standing C' j' \<longrightarrow> rv_term req' = st')"
    proof cases
      case 1
      with ok' show ?thesis by (auto simp: cluster_ok_def requests_ok_def C')
    next
      case 2
      with mem j le here same C' show ?thesis by (simp add: request_vote_request_of_def)
    qed
  qed
  moreover have "answers_ok ?C"
    using ok' unfolding cluster_ok_def answers_ok_def C' by auto
  moreover have "members_ok ops Mem ?C" "cast_ok Mem ?C" "answers_once ?C" "counted_ok Mem ?C" "tally_ok Mem ?C"
    using ok' C' by (simp_all add: cluster_ok_def)
  ultimately show ?thesis by (simp add: cluster_ok_def)
qed

text \<open>An answer read by the session that asked for it.\<close>

lemma read_ok:
  assumes ok: "cluster_ok ops Mem C" and answer: "((p, j, st, req), r) \<in> cl_answers C"
    and st: "st = cl_session C j" and v: "vote_session_of (cl_main C j) = Some v"
    and run: "on_vote_response ops (length (get_membership ops (nd_state (vs_node v)))) r v = (res, v')"
    and moves: "node_moves ops Mem C j [] (put_vote_session v' (cl_main C j))"
  shows "cluster_ok ops Mem (answer_read (p, j, st, req) r (moved j (put_vote_session v' (cl_main C j)) [] C))"
proof -
  let ?M = "moved j (put_vote_session v' (cl_main C j)) [] C"
  let ?C = "answer_read (p, j, st, req) r ?M"
  let ?new = "counts r \<and> rv_term req = cl_session C j"
  have node: "cl_node C j = vs_node v" using v by (simp add: cl_node_def session_of_node)
  have j: "j \<in> Mem" using moves by (simp add: node_moves_def)
  have asked: "(p, j, st, req) \<in> cl_requests C" "p \<in> Mem" "p \<noteq> j"
    "standing C j \<longrightarrow> rv_term req = st"
  proof -
    show "(p, j, st, req) \<in> cl_requests C" using ok answer by (auto simp: cluster_ok_def answers_ok_def)
    with ok have "p \<in> Mem \<and> p \<noteq> j \<and> (st = cl_session C j \<and> standing C j \<longrightarrow> rv_term req = st)"
      unfolding cluster_ok_def requests_ok_def by blast
    with st show "p \<in> Mem" "p \<noteq> j" "standing C j \<longrightarrow> rv_term req = st" by blast+
  qed
  have vote: "(rv_term req, j) \<in> set (cl_votes C p)" "rv_term req = cl_session C j \<longrightarrow> p \<notin> cl_counted C j"
    if "counts r"
    using ok answer that by (auto simp: cluster_ok_def answers_ok_def counts_def)
  have size: "length (get_membership ops (nd_state (vs_node v))) = card Mem" "finite Mem"
    using members_ok_card [of ops Mem C j] ok j node by (simp_all add: cluster_ok_def)
  have fin: "finite (cl_counted C j)"
    by (rule finite_subset [OF _ size(2)]) (use ok in \<open>auto simp: cluster_ok_def counted_ok_def\<close>)
  have frame: "node_frame False (steps_down r \<and> rvr_term r < nd_current_term (vs_node v)) False (vs_node v) (vs_node v')"
    using vs_frame_response [of False r v False ops "length (get_membership ops (nd_state (vs_node v)))"] run by simp
  have sel: "cl_node ?C = cl_node ?M" "cl_main ?C = cl_main ?M" "cl_votes ?C = cl_votes C" "cl_session ?C = cl_session C"
    "cl_requests ?C = cl_requests C" "cl_answers ?C = cl_answers C - {((p, j, st, req), r)}"
    "cl_counted ?C = (cl_counted C)(j := if ?new then insert p (cl_counted C j) else cl_counted C j)"
    by (auto simp: cl_node_def fun_eq_iff moved_def)
  have stand: "standing ?C = standing ?M" by (simp add: standing_def cl_node_def fun_eq_iff)
  have stays: "standing C k" if "standing ?M k" for k
  proof (cases "k = j")
    case True
    with that v frame node show ?thesis by (simp add: standing_def node_frame_def)
  next
    case False
    with that show ?thesis by (simp add: standing_def)
  qed
  have up: "nd_current_term (cl_node C k) \<le> nd_current_term (cl_node ?M k)" for k
    using moves by (simp add: node_moves_def term_kept_def)
  have 1: "members_ok ops Mem ?C" "cast_ok Mem ?C"
    using ok moved_members [OF _ moves] moved_cast [OF _ moves]
    unfolding cluster_ok_def members_ok_def cast_ok_def sel(1,3) by auto
  have 2: "requests_ok Mem ?C"
    unfolding requests_ok_def sel stand
  proof (intro allI impI)
    fix p' j' st' req' assume "(p', j', st', req') \<in> cl_requests C"
    with ok have old: "p' \<in> Mem" "j' \<in> Mem" "p' \<noteq> j'" "rv_candidate_id req' = j'" "st' \<le> nd_current_term (cl_node C j')"
      "st' = cl_session C j' \<and> standing C j' \<longrightarrow> rv_term req' = st'"
      by (auto simp: cluster_ok_def requests_ok_def)
    from old stays order.trans [OF old(5) up] show "p' \<in> Mem \<and> j' \<in> Mem \<and> p' \<noteq> j' \<and> rv_candidate_id req' = j' \<and>
        st' \<le> nd_current_term (cl_node ?M j') \<and> (st' = cl_session C j' \<and> standing ?M j' \<longrightarrow> rv_term req' = st')"
      by blast
  qed
  have 3: "answers_ok ?C"
    unfolding answers_ok_def sel
  proof (intro allI impI)
    fix p' j' st' req' r'
    assume other: "((p', j', st', req'), r') \<in> cl_answers C - {((p, j, st, req), r)}"
    with ok have old: "(p', j', st', req') \<in> cl_requests C"
      "rvr_vote_granted r' \<longrightarrow> \<not> steps_down r' \<and> (rv_term req', j') \<in> set (cl_votes C p') \<and>
         (rv_term req' = cl_session C j' \<longrightarrow> p' \<notin> cl_counted C j')"
      by (auto simp: cluster_ok_def answers_ok_def)
    have "p' \<noteq> p" if "j' = j" "counts r" "rv_term req = cl_session C j" "rvr_vote_granted r'" "rv_term req' = cl_session C j"
    proof
      assume "p' = p"
      with that other answer ok have "st = st' \<and> req = req' \<and> r = r'"
        unfolding cluster_ok_def answers_once_def counts_def by (metis DiffD1)
      with other that(1) \<open>p' = p\<close> show False by simp
    qed
    with old show "(p', j', st', req') \<in> cl_requests C \<and> (rvr_vote_granted r' \<longrightarrow> \<not> steps_down r' \<and>
        (rv_term req', j') \<in> set (cl_votes C p') \<and> (rv_term req' = cl_session C j' \<longrightarrow>
           p' \<notin> ((cl_counted C)(j := if ?new then insert p (cl_counted C j) else cl_counted C j)) j'))"
      by auto
  qed
  have 4: "answers_once ?C"
    using ok unfolding cluster_ok_def answers_once_def sel by blast
  have 5: "counted_ok Mem ?C"
    using ok vote(1) asked(2,3) unfolding cluster_ok_def counted_ok_def sel by (auto split: if_splits)
  have 6: "tally_ok Mem ?C"
    unfolding tally_ok_def
  proof (intro ballI allI impI)
    fix k w
    assume k: "k \<in> Mem" and w: "vote_session_of (cl_main ?C k) = Some w"
      and state: "nd_current_state (cl_node ?C k) = Candidate"
    show "tally_right Mem ?C k w"
    proof (cases "k = j")
      case True
      with w v have "w = v'" by (simp add: sel(2))
      have was: "nd_current_state (vs_node v) = Candidate" "nd_current_term (vs_node v') = nd_current_term (vs_node v)"
        using state True frame unfolding sel(1) by (simp_all add: node_frame_def)
      then have "standing C j" using v node by (simp add: standing_def)
      with asked(4) st have eq: "rv_term req = cl_session C j" by simp
      from ok v node was j have "tally_right Mem C j v" by (simp add: cluster_ok_def tally_ok_def)
      moreover have "card (cl_counted ?C j) = card (cl_counted C j) + (if counts r then 1 else 0)"
        using eq vote(2) fin by (simp add: sel(7))
      ultimately show ?thesis
        using on_vote_response_tally [OF run] was True \<open>w = v'\<close> node size(1)
        unfolding tally_right_def sel(1,3,4) by (auto split: if_splits)
    next
      case False
      with w state k ok have "tally_right Mem C k w"
        by (simp add: cluster_ok_def tally_ok_def sel(1,2) del: answer_read.simps)
      with False show ?thesis unfolding tally_right_def sel by auto
    qed
  qed
  from 1 2 3 4 5 6 show ?thesis by (simp add: cluster_ok_def del: answer_read.simps)
qed

text \<open>Only the vote machine's own fields matter to what a run keeps.\<close>

lemma leader_made_sel [simp]:
  "cl_node (leader_made i M C) = cl_node C" "cl_main (leader_made i M C) = cl_main C"
  "cl_votes (leader_made i M C) = cl_votes C" "cl_session (leader_made i M C) = cl_session C"
  "cl_counted (leader_made i M C) = cl_counted C" "cl_requests (leader_made i M C) = cl_requests C"
  "cl_answers (leader_made i M C) = cl_answers C"
  "cl_elected (leader_made i M C) =
     (if promoted M (cl_main C i) then insert (nd_current_term (main_node M), i) (cl_elected C) else cl_elected C)"
  by (simp_all add: leader_made_def cl_node_def fun_eq_iff)

lemma leader_made_ok: "cluster_ok ops Mem (leader_made i M C) = cluster_ok ops Mem C"
  unfolding cluster_ok_def cluster_ok_defs standing_def tally_right_def leader_made_sel ..

lemma lone_alone:
  assumes "cluster_ok ops Mem C" and "i \<in> Mem" and "NoPeers \<in> lone_result ops (cl_node C i)"
  shows "Mem = {i}"
proof -
  have "member_ids ops (cl_node C i) = Mem" and id: "nd_id (cl_node C i) = i"
    using assms(1,2) by (simp_all add: cluster_ok_def members_ok_def)
  then have "other_members ops (cl_node C i) = {k \<in> Mem. k \<noteq> i}"
    unfolding other_members_def member_ids_def by simp
  moreover have "other_members ops (cl_node C i) = {}"
    using assms(3) by (simp add: lone_result_def split: if_splits)
  ultimately show ?thesis using assms(2) by blast
qed

lemma emit_request_vote_node:
  assumes "emit_request_vote ops p n = (res, n')"
  shows "nd_current_term n' = nd_current_term n" "nd_state n' = nd_state n"
  using assms
  by (auto simp: emit_request_vote_def on_out_rpc_def zoom_c_def bind_c_def gets_c_def split: prod.splits)

lemma cluster_step_ok:
  assumes fixed: "fixed_membership ops" and step: "cluster_step pr ops gen_range term_kept Mem C C'" and ok: "cluster_ok ops Mem C"
  shows "cluster_ok ops Mem C'"
  using step
proof cases
  case (turn i now b vs M')
  have moves: "node_moves ops Mem C i vs M'"
    by (rule node_step_moves [OF ok turn(2) node_step.turn [OF turn(3)] turn(6) fixed]) simp
  have "cluster_ok ops Mem (moved i M' vs C)"
    by (rule moved_ok [OF ok moves main_turn_quiet [OF turn(3,4)]]) simp_all
  with turn(1) show ?thesis by (simp add: leader_made_ok)
next
  case (session_turn i now b vs M')
  have moves: "node_moves ops Mem C i vs M'"
    by (rule node_step_moves [OF ok session_turn(2) node_step.turn [OF session_turn(3)] session_turn(5) fixed]) simp
  show ?thesis
    unfolding session_turn(1)
    by (rule opened_ok [OF ok moves])
      (use main_turn_opens [OF session_turn(3,4)] main_turn_vote [OF session_turn(3)] session_turn(4)
        in \<open>simp_all add: cl_node_def\<close>)
next
  case (answering i now b vs M' req r j st C1)
  have moves: "node_moves ops Mem C i vs M'"
    by (rule node_step_moves [OF ok answering(2) node_step.turn [OF answering(3)] answering(6) fixed]) simp
  have still: "\<not> opens_session gen_range now b (cl_main C i)"
    using opening_answers_nothing [of gen_range now b "cl_main C i" ops] answering(4) by auto
  have ok': "cluster_ok ops Mem (moved i M' vs C)"
    by (rule moved_ok [OF ok moves main_turn_quiet [OF answering(3) still]]) simp_all
  have "rv_candidate_id req = j"
    by (rule request_parties(4) [OF ok answering(5)])
  then have "vs = (if rvr_vote_granted r then [(rv_term req, j)] else [])"
    using main_turn_vote [OF answering(3)] still answering(4) by (simp add: vote_in_def)
  with answered_ok [OF ok ok' answering(5) _ turn_answer_sent(2) [OF answering(4)] answering(7,2)]
  show ?thesis unfolding answering(1) by blast
next
  case (asking j p st n' C1)
  let ?M = "put_node n' (cl_main C j)"
  note emitted = emit_request_vote_node [OF asking(5)]
  have step: "node_step pr ops gen_range (cl_main C j) TaskSends ?M"
    using asking(5) unfolding cl_node_def by (rule node_step.send_vote_request)
  have moves: "node_moves ops Mem C j [] ?M"
    by (rule node_step_moves [OF ok asking(2) step _ fixed]) (use emitted in \<open>simp_all add: term_kept_def\<close>)
  have "node_frame False False False (cl_node C j) n'"
    by (rule guaranteesD [OF node_frame_emit(1) asking(5)])
  then have quiet: "quiet {} (cl_main C j) ?M" by (simp add: quiet_put cl_node_def)
  have "cluster_ok ops Mem (moved j ?M [] C)"
    by (rule moved_ok [OF ok moves quiet]) simp_all
  from asked_ok [OF ok this asking(2,3,4) _ quiet asking(6)] emitted show ?thesis
    unfolding asking(1) by simp
next
  case (reading p j st req r v res v')
  have j: "j \<in> Mem"
    by (rule request_parties(2) [OF ok answer_asked [OF ok reading(2)]])
  have "in_vote_session v (\<lambda>w. put_vote_session w (cl_main C j)) (cl_main C j)"
    using reading(4) by (simp add: in_vote_session_def)
  from node_step_moves [OF ok j node_step.vote_answer [OF this reading(5)] _ fixed] reading(6)
  have "node_moves ops Mem C j [] (put_vote_session v' (cl_main C j))" by simp
  from read_ok [OF ok reading(2,3,4,5) this] show ?thesis unfolding reading(1) .
next
  case (reading_late p j st req r v res v' C1)
  let ?M = "put_node (vs_node v') (cl_main C j)"
  have j: "j \<in> Mem"
    by (rule request_parties(2) [OF ok answer_asked [OF ok reading_late(2)]])
  have "in_vote_session v (\<lambda>w. put_node (vs_node w) (cl_main C j)) (cl_main C j)"
    using reading_late(3) by (simp add: in_vote_session_def cl_node_def)
  from node_step_moves [OF ok j node_step.vote_answer [OF this reading_late(4)] _ fixed] reading_late(5)
  have moves: "node_moves ops Mem C j [] ?M" by simp
  have "quiet {} (cl_main C j) ?M"
    using vs_frame_response [of False r v False ops "length (get_membership ops (nd_state (vs_node v)))"]
      reading_late(3,4) by (intro quiet_put) (simp add: cl_node_def)
  from forgotten_ok [OF moved_ok [OF ok moves this]] reading_late(6) show ?thesis
    unfolding reading_late(1) by simp
next
  case (losing a)
  with forgotten_ok [OF ok] show ?thesis by simp
next
  case (other i l M')
  have moves: "node_moves ops Mem C i [] M'"
    by (rule node_step_moves [OF ok other(2,3,6) fixed]) (use other(4) in \<open>cases l; simp\<close>)
  have quiet: "quiet (lone_result ops (cl_node C i)) (cl_main C i) M'"
    using task_quiet [OF other(3-5)] by (simp add: cl_node_def)
  show ?thesis
    unfolding other(1)
    by (rule moved_ok [OF ok moves quiet])
      (use lone_alone [OF ok other(2)] in \<open>simp_all add: lone_result_def\<close>)
qed

lemma cluster_run_ok:
  assumes fixed: "fixed_membership ops" and "cluster_run pr ops gen_range term_kept Mem C C'" and "cluster_ok ops Mem C"
  shows "cluster_ok ops Mem C'"
  using assms(2,3) unfolding cluster_run_def
  by (induction rule: rtranclp_induct) (auto intro: cluster_step_ok [OF fixed])

section \<open>A cluster refines the ballot\<close>

definition cluster_ballot :: "node_id set \<Rightarrow> ('s, 'r) cluster \<Rightarrow> ballot" where
  "cluster_ballot Mem C =
     \<lparr>bl_choice = (\<lambda>v. if v \<in> Mem then map_of (cl_votes C v) else (\<lambda>t. None)), bl_elected = cl_elected C\<rparr>"

lemma cluster_ballot_sel [simp]:
  "bl_elected (cluster_ballot Mem C) = cl_elected C"
  "v \<in> Mem \<Longrightarrow> bl_choice (cluster_ballot Mem C) v = map_of (cl_votes C v)"
  by (simp_all add: cluster_ballot_def)

lemma cluster_ballot_cong:
  "(\<And>v. v \<in> Mem \<Longrightarrow> cl_votes C v = cl_votes C' v) \<Longrightarrow> cl_elected C = cl_elected C' \<Longrightarrow>
     cluster_ballot Mem C = cluster_ballot Mem C'"
  by (simp add: cluster_ballot_def fun_eq_iff)

text \<open>The votes of a turn, cast in the ballot.\<close>

lemma moved_refines:
  assumes moves: "node_moves ops Mem C i vs M'" and one: "vs = [] \<or> (\<exists>t c. vs = [(t, c)])"
  shows "(ballot_step Mem)\<^sup>*\<^sup>* (cluster_ballot Mem C) (cluster_ballot Mem (moved i M' vs C))"
  using one
proof (elim disjE exE)
  assume "vs = []"
  then have "cluster_ballot Mem (moved i M' vs C) = cluster_ballot Mem C"
    by (intro cluster_ballot_cong) simp_all
  then show ?thesis by simp
next
  fix t c assume vs: "vs = [(t, c)]"
  let ?B = "cluster_ballot Mem C"
  have i: "i \<in> Mem" using moves by (simp add: node_moves_def)
  have new: "t \<notin> fst ` set (cl_votes C i)"
    using moves vs by (simp add: node_moves_def votes_ok_def)
  then have none: "map_of (cl_votes C i) t = None" by (simp add: map_of_eq_None_iff)
  with i have "bl_choice ?B i t = None" by simp
  from ballot_step.cast [OF i this]
  have "ballot_step Mem ?B (?B\<lparr>bl_choice := (bl_choice ?B)(i := (bl_choice ?B i)(t \<mapsto> c))\<rparr>)" .
  moreover have "map_of (cl_votes C i @ [(t, c)]) = (map_of (cl_votes C i))(t \<mapsto> c)"
    using none by (auto simp: fun_eq_iff map_add_def split: option.splits)
  then have "?B\<lparr>bl_choice := (bl_choice ?B)(i := (bl_choice ?B i)(t \<mapsto> c))\<rparr> = cluster_ballot Mem (moved i M' vs C)"
    using i vs by (auto simp: cluster_ballot_def fun_eq_iff)
  ultimately show ?thesis by simp
qed

text \<open>A candidate that a waiting result makes leader has the quorum, or is alone.\<close>

lemma waiting_elected:
  assumes ok: "cluster_ok ops Mem C" and i: "i \<in> Mem" and wait: "result_waiting (cl_main C i)"
    and state: "nd_current_state (cl_node C i) = Candidate"
  shows "Mem = {i} \<or> chosen_by_quorum Mem (cluster_ballot Mem C) (nd_current_term (cl_node C i)) i"
proof -
  from wait obtain v where v: "vote_session_of (cl_main C i) = Some v" and q: "ch_queue (vs_vote_result v) \<noteq> []"
    by (auto simp: result_waiting_def split: main_task.splits)
  from ok v state i have tally: "tally_right Mem C i v" by (simp add: cluster_ok_def tally_ok_def)
  from q obtain x where x: "x \<in> set (ch_queue (vs_vote_result v))" by (cases "ch_queue (vs_vote_result v)") auto
  show ?thesis
  proof (cases x)
    case NoPeers
    with x tally show ?thesis by (simp add: tally_right_def)
  next
    case Granted
    let ?t = "cl_session C i" and ?Q = "insert i (cl_counted C i)"
    have fin: "finite Mem" using members_ok_card [of ops Mem C i] ok i by (simp add: cluster_ok_def)
    have counted: "p \<in> Mem \<and> p \<noteq> i \<and> (?t, i) \<in> set (cl_votes C p)" if "p \<in> cl_counted C i" for p
      using ok that unfolding cluster_ok_def counted_ok_def by blast
    then have sub: "?Q \<subseteq> Mem" "i \<notin> cl_counted C i" using i by blast+
    then have "card ?Q = 1 + card (cl_counted C i)"
      using finite_subset [OF sub(1) fin] by simp
    with sub(1) fin Granted x tally have "vote_quorum Mem ?Q" by (simp add: vote_quorum_def tally_right_def)
    moreover have "bl_choice (cluster_ballot Mem C) p ?t = Some i" if "p \<in> ?Q" for p
    proof -
      have p: "p \<in> Mem" using that sub(1) by blast
      have "(?t, i) \<in> set (cl_votes C p)" using that counted tally by (auto simp: tally_right_def)
      moreover have "votes_ok (cl_votes C p) (cl_node C p)" using ok p by (simp add: cluster_ok_def cast_ok_def)
      ultimately show ?thesis using p by (simp add: votes_ok_choice)
    qed
    ultimately have "chosen_by_quorum Mem (cluster_ballot Mem C) ?t i"
      unfolding chosen_by_quorum_def by blast
    with tally show ?thesis by (simp add: tally_right_def)
  qed
qed

lemma turn_refines:
  assumes fixed: "fixed_membership ops" and ok: "cluster_ok ops Mem C" and i: "i \<in> Mem"
    and turn: "main_turn pr ops gen_range now b (cl_main C i) = (vs, M')"
    and keep: "term_kept (cl_node C i) (main_node M')"
  shows "(ballot_step Mem)\<^sup>*\<^sup>* (cluster_ballot Mem C) (cluster_ballot Mem (moved i M' vs C))"
    "promoted (cl_main C i) M' \<Longrightarrow>
       ballot_step Mem (cluster_ballot Mem (moved i M' vs C))
         (cluster_ballot Mem (leader_made i (cl_main C i) (moved i M' vs C)))"
proof -
  have moves: "node_moves ops Mem C i vs M'"
    by (rule node_step_moves [OF ok i node_step.turn [OF turn] keep fixed]) simp
  show steps: "(ballot_step Mem)\<^sup>*\<^sup>* (cluster_ballot Mem C) (cluster_ballot Mem (moved i M' vs C))"
    by (rule moved_refines [OF moves]) (use main_turn_votes [OF turn] in blast)
  assume up: "promoted (cl_main C i) M'"
  then have "nd_current_state (cl_node C i) = Candidate" "result_waiting (cl_main C i)"
    using main_turn_frame [OF turn] by (simp_all add: promoted_def node_frame_def cl_node_def)
  from waiting_elected [OF ok i this(2,1)]
  have "Mem = {i} \<or> chosen_by_quorum Mem (cluster_ballot Mem (moved i M' vs C)) (nd_current_term (cl_node C i)) i"
    using steps chosen_by_quorum_stays by blast
  from ballot_step.elect [OF i this]
  show "ballot_step Mem (cluster_ballot Mem (moved i M' vs C))
      (cluster_ballot Mem (leader_made i (cl_main C i) (moved i M' vs C)))"
    using up by (simp add: cluster_ballot_def cl_node_def cong: if_cong)
qed

lemma cluster_step_refines:
  assumes fixed: "fixed_membership ops" and step: "cluster_step pr ops gen_range term_kept Mem C C'" and ok: "cluster_ok ops Mem C"
  shows "(ballot_step Mem)\<^sup>*\<^sup>* (cluster_ballot Mem C) (cluster_ballot Mem C')"
  using step
proof cases
  case (turn i now b vs M')
  note steps = turn_refines [OF fixed ok turn(2,3,6)]
  show ?thesis
  proof (cases "promoted (cl_main C i) M'")
    case True
    with steps turn(1) show ?thesis by (metis rtranclp.rtrancl_into_rtrancl)
  next
    case False
    with steps(1) turn(1) show ?thesis by (simp add: leader_made_def)
  qed
next
  case (session_turn i now b vs M')
  have "cluster_ballot Mem C' = cluster_ballot Mem (moved i M' vs C)"
    unfolding session_turn(1) by (rule cluster_ballot_cong) simp_all
  with turn_refines(1) [OF fixed ok session_turn(2,3,5)] show ?thesis by simp
next
  case (answering i now b vs M' req r j st C1)
  have "cluster_ballot Mem C' = cluster_ballot Mem (moved i M' vs C)"
    unfolding answering(1,7) by (rule cluster_ballot_cong) simp_all
  with turn_refines(1) [OF fixed ok answering(2,3,6)] show ?thesis by simp
next
  case (reading p j st req r v res v')
  have "cluster_ballot Mem C' = cluster_ballot Mem C"
    unfolding reading(1) by (rule cluster_ballot_cong) (simp_all add: moved_def)
  then show ?thesis by simp
next
  case (asking j p st n' C1)
  have "cluster_ballot Mem C' = cluster_ballot Mem C"
    unfolding asking(1,6) by (rule cluster_ballot_cong) simp_all
  then show ?thesis by simp
next
  case (reading_late p j st req r v res v' C1)
  have "cluster_ballot Mem C' = cluster_ballot Mem C"
    unfolding reading_late(1,6) by (rule cluster_ballot_cong) simp_all
  then show ?thesis by simp
next
  case (losing a)
  have "cluster_ballot Mem C' = cluster_ballot Mem C"
    unfolding losing(1) by (rule cluster_ballot_cong) simp_all
  then show ?thesis by simp
next
  case (other i l M')
  have "cluster_ballot Mem C' = cluster_ballot Mem C"
    unfolding other(1) by (rule cluster_ballot_cong) simp_all
  then show ?thesis by simp
qed

lemma cluster_run_refines:
  assumes fixed: "fixed_membership ops" and run: "cluster_run pr ops gen_range term_kept Mem C C'" and ok: "cluster_ok ops Mem C"
  shows "(ballot_step Mem)\<^sup>*\<^sup>* (cluster_ballot Mem C) (cluster_ballot Mem C')"
  using run unfolding cluster_run_def
proof (induction rule: rtranclp_induct)
  case (step C1 C2)
  have "cluster_ok ops Mem C1"
    by (rule cluster_run_ok [OF fixed _ ok]) (use step(1) in \<open>simp add: cluster_run_def\<close>)
  from cluster_step_refines [OF fixed step(2) this] step.IH show ?case by simp
qed simp

lemma cluster_starts_ballot:
  assumes "cluster_starts ops Mem C"
  shows "cluster_ballot Mem C = ballot_empty"
  using assms by (simp add: cluster_starts_def cluster_ballot_def ballot_empty_def fun_eq_iff)

lemma cluster_run_ballot:
  assumes fixed: "fixed_membership ops" and start: "cluster_starts ops Mem C0" and run: "cluster_run pr ops gen_range term_kept Mem C0 C"
  shows "(ballot_step Mem)\<^sup>*\<^sup>* ballot_empty (cluster_ballot Mem C)"
  using cluster_run_refines [OF fixed run cluster_starts_ok [OF start]] cluster_starts_ballot [OF start] by simp

end
