(* ===== verification/Scripts.thy ===== *)
theory Scripts
  imports Node_System
begin

text \<open>
  Running the node machine: a script fixes the scheduler's choices, the clock and what the
  outside delivers, and \<open>run_script\<close> computes the run. Every script is a run of the machine of
  theory Node_System. The theory also holds the sample nodes that the concrete runs start from.
\<close>

datatype 'r action =
    Run instant select_branch
  | Deliver "'r peer_rpc"
  | AnswerVote request_vote_response
  | AnswerAppend append_entries_response
  | SendHeartbeats

definition deliver :: "'r peer_rpc \<Rightarrow> ('s, 'r) raft_node \<Rightarrow> ('s, 'r) raft_node" where
  "deliver m n = n\<lparr>nd_channels := (nd_channels n)
     \<lparr>in_rpc := (in_rpc (nd_channels n))\<lparr>ch_queue := ch_queue (in_rpc (nd_channels n)) @ [m]\<rparr>\<rparr>\<rparr>"

text \<open>A step for a session that is not there is no step.\<close>

fun run_action ::
    "profile \<Rightarrow> ('s, 'r) state_ops \<Rightarrow> (u64 \<Rightarrow> u64 \<Rightarrow> u64) \<Rightarrow> 'r action \<Rightarrow> ('s, 'r) main_task
       \<Rightarrow> vote list \<times> ('s, 'r) main_task" where
  "run_action pr ops gen_range (Run now b) M = main_turn pr ops gen_range now b M"
| "run_action pr ops gen_range (Deliver m) M = ([], put_node (deliver m (main_node M)) M)"
| "run_action pr ops gen_range (AnswerVote r) M =
     ([], case vote_session_of M of None \<Rightarrow> M
        | Some v \<Rightarrow> put_vote_session (snd (on_vote_response ops
             (length (get_membership ops (nd_state (vs_node v)))) r v)) M)"
| "run_action pr ops gen_range (AnswerAppend r) M =
     ([], case replication_session_of M of None \<Rightarrow> M
        | Some v \<Rightarrow> put_replication_session (snd (on_heartbeat_response pr ops r v)) M)"
| "run_action pr ops gen_range SendHeartbeats M =
     ([], case replication_session_of M of None \<Rightarrow> M
        | Some v \<Rightarrow> put_replication_session (snd (send_heartbeat_to_peers ops v)) M)"

fun run_script ::
    "profile \<Rightarrow> ('s, 'r) state_ops \<Rightarrow> (u64 \<Rightarrow> u64 \<Rightarrow> u64) \<Rightarrow> 'r action list \<Rightarrow> ('s, 'r) main_task
       \<Rightarrow> vote list \<times> ('s, 'r) main_task" where
  "run_script pr ops gen_range [] M = ([], M)"
| "run_script pr ops gen_range (a # as) M =
     (case run_action pr ops gen_range a M of (vs, M1) \<Rightarrow>
        case run_script pr ops gen_range as M1 of (vs', M') \<Rightarrow> (vs @ vs', M'))"

text \<open>Whether every action of a script satisfies \<open>keep\<close>.\<close>

fun script_keeps ::
    "profile \<Rightarrow> ('s, 'r) state_ops \<Rightarrow> (u64 \<Rightarrow> u64 \<Rightarrow> u64)
       \<Rightarrow> (('s, 'r) raft_node \<Rightarrow> ('s, 'r) raft_node \<Rightarrow> bool) \<Rightarrow> 'r action list
       \<Rightarrow> ('s, 'r) main_task \<Rightarrow> bool" where
  "script_keeps pr ops gen_range keep [] M = True"
| "script_keeps pr ops gen_range keep (a # as) M =
     (let M1 = snd (run_action pr ops gen_range a M)
      in keep (main_node M) (main_node M1) \<and> script_keeps pr ops gen_range keep as M1)"

lemma run_action_step:
  assumes "run_action pr ops gen_range a M = (vs, M')"
  shows "vs = [] \<and> M' = M \<or> (\<exists>l. node_step pr ops gen_range M l M' \<and> votes_of l = vs)"
proof (cases a)
  case (Run now b)
  with assms show ?thesis by (metis node_step.turn run_action.simps(1) votes_of.simps(1))
next
  case (Deliver m)
  with assms show ?thesis
    by (auto simp: deliver_def intro!: exI [of _ Outside] node_step.outside)
next
  case (AnswerVote r)
  show ?thesis
  proof (cases "vote_session_of M")
    case (Some v)
    then have "in_vote_session v (\<lambda>v'. put_vote_session v' M) M" by (simp add: in_vote_session_def)
    from node_step.vote_answer [OF this prod.collapse [symmetric]] AnswerVote Some assms show ?thesis
      by (auto intro!: exI [of _ "VoteAnswer r"])
  qed (use AnswerVote assms in simp)
next
  case (AnswerAppend r)
  show ?thesis
  proof (cases "replication_session_of M")
    case (Some v)
    then have "in_replication_session v (\<lambda>v'. put_replication_session v' M) M"
      by (simp add: in_replication_session_def)
    from node_step.heartbeat_answer [OF this prod.collapse [symmetric]] AnswerAppend Some assms
    show ?thesis by (auto intro!: exI [of _ "AppendAnswer r"])
  qed (use AnswerAppend assms in simp)
next
  case SendHeartbeats
  show ?thesis
  proof (cases "replication_session_of M")
    case (Some v)
    then have "in_replication_session v (\<lambda>v'. put_replication_session v' M) M"
      by (simp add: in_replication_session_def)
    from node_step.heartbeats [OF this prod.collapse [symmetric]] SendHeartbeats Some assms
    show ?thesis by (auto intro!: exI [of _ TaskSends])
  qed (use SendHeartbeats assms in simp)
qed

lemma run_script_run:
  assumes "run_script pr ops gen_range as M = (vs', M')" and "script_keeps pr ops gen_range keep as M"
    and "node_run pr ops gen_range keep M0 vs M"
  shows "node_run pr ops gen_range keep M0 (vs @ vs') M'"
  using assms
proof (induction as arbitrary: M vs vs')
  case (Cons a as)
  obtain ws M1 where act: "run_action pr ops gen_range a M = (ws, M1)" by force
  with Cons.prems(1) obtain ws' where rest: "run_script pr ops gen_range as M1 = (ws', M')"
    and vs': "vs' = ws @ ws'" by (auto split: prod.splits)
  have keep: "keep (main_node M) (main_node M1)" "script_keeps pr ops gen_range keep as M1"
    using Cons.prems(2) act by (simp_all add: Let_def)
  have "node_run pr ops gen_range keep M0 (vs @ ws) M1"
    using run_action_step [OF act] node_run.step [OF Cons.prems(3) _ keep(1)] Cons.prems(3) by auto
  from Cons.IH [OF rest keep(2) this] vs' show ?case by simp
qed simp

text \<open>A script from a start state is a run; without a condition on its steps it always is one.\<close>

lemma script_run:
  assumes "script_keeps pr ops gen_range keep as M0"
  shows "node_run pr ops gen_range keep M0 (fst (run_script pr ops gen_range as M0))
    (snd (run_script pr ops gen_range as M0))"
  using run_script_run [OF prod.collapse [symmetric] assms node_run.start] by simp

lemma script_any: "script_keeps pr ops gen_range any_step as M"
  by (induction as arbitrary: M) (simp_all add: any_step_def Let_def)

section \<open>Sample nodes\<close>

definition low_end :: "u64 \<Rightarrow> u64 \<Rightarrow> u64" where
  "low_end lo hi = lo"

definition sample_members :: "(node_id, socket_addr) hashmap" where
  "sample_members = map (\<lambda>i. (i, SocketAddr 0 0)) [1, 2, 3]"

definition sample_state :: "u64 \<Rightarrow> nat log_entry list \<Rightarrow> nat memory_state" where
  "sample_state t es =
     \<lparr>ms_entries = es, ms_membership = sample_members, ms_commit_index = 0, ms_applied_index = 0,
      ms_current_term = t, ms_voted_for = None\<rparr>"

definition sample_builder ::
    "node_id \<Rightarrow> nat memory_state \<Rightarrow> (nat memory_state, nat raft_channels) raft_node_builder" where
  "sample_builder i s =
     builder_channels create_channels
       (builder_id i (builder_state s (builder_default 0 memory_state_default (150, 300) 50 ())))"

definition sample_node :: "node_id \<Rightarrow> nat memory_state \<Rightarrow> (nat memory_state, nat) raft_node" where
  "sample_node i s =
     \<lparr>nd_id = i, nd_current_term = ms_current_term s, nd_voted_for = ms_voted_for s, nd_state = s,
      nd_channels = create_channels, nd_current_state = Follower,
      nd_election_timeout_range = (150, 300), nd_heartbeat_interval = 50, nd_leader_id = None,
      nd_last_heard_from_leader = None\<rparr>"

lemma sample_node_built:
  "builder_build memory_ops (sample_builder i (sample_state t es)) = Ok (sample_node i (sample_state t es))"
  by (simp add: builder_build_def sample_builder_def builder_channels_def builder_id_def
      builder_state_def builder_default_def sample_node_def sample_state_def sample_members_def)

lemma low_end_range: "range_gen low_end"
  by (simp add: range_gen_def low_end_def)

section \<open>A sample node stands for election\<close>

lemmas turn_eval =
  run_role_def node_dispatch_def follower_start_def new_election_timeout_def start_range_def
  follower_enter_def continuation_def get_remaining_def get_elapsed_def timer_ready_def
  deadline_def follower_branch_def node_read_defs on_ft_node_def after_branch_def rpc_votes_def rpc_answer_def vote_in_def
  candidate_start_def spawn_request_votes_def timeouts_def timeout_start_def candidate_enter_def
  ct_node_def ct_put_node_def bind_c_def node_change_defs session_restarts_def

lemmas turn_defs = turn_eval from_millis_def low_end_def

text \<open>
  The follower starts at time 0 and waits for its election timeout of 150 ms; then it becomes a
  candidate and opens its vote session. The branch named in a turn that is not in a \<open>select!\<close>
  is not looked at.
\<close>

definition stand_for_election :: "'r action list" where
  "stand_for_election =
     [Run 0 OnRpc, Run 0 OnRpc, Run 150000000 OnElectionTimeout, Run 150000000 OnRpc,
      Run 150000000 OnRpc, Run 150000000 OnRpc]"

definition sample_candidate ::
    "node_id \<Rightarrow> nat memory_state \<Rightarrow> (nat memory_state, nat) candidate_task" where
  "sample_candidate i s =
     \<lparr>ct_session = vote_session_initialize ((sample_node i s)\<lparr>nd_current_state := Candidate\<rparr>),
      ct_election_timeout =
        \<lparr>to_duration = Range 150 300, to_start = 150000000, to_current_interval = 150000000\<rparr>,
      ct_retry_timeout =
        \<lparr>to_duration = Fixed 50, to_start = 150000000, to_current_interval = 50000000\<rparr>,
      ct_vote_tasks = [200000000]\<rparr>"

lemma stand_for_election_run:
  "run_script pr memory_ops low_end stand_for_election (Dispatching (sample_node i s)) =
     ([(ms_current_term s + 1, i)], CandidateSelect (sample_candidate i s))"
  by (simp add: stand_for_election_def sample_candidate_def sample_node_def turn_defs outcome_simps
      self_vote_def)

lemma stand_for_election_keeps:
  assumes "ms_current_term s \<noteq> - 1"
  shows "script_keeps pr memory_ops low_end term_kept stand_for_election (Dispatching (sample_node i s))"
  using u64_less_plus_one [OF assms]
  by (simp add: stand_for_election_def sample_node_def turn_defs outcome_simps self_vote_def
      vote_session_initialize_def term_kept_def Let_def)

lemma run_script_append:
  "run_script pr ops gen_range (as @ bs) M =
     (case run_script pr ops gen_range as M of (vs, M1) \<Rightarrow>
        case run_script pr ops gen_range bs M1 of (vs', M') \<Rightarrow> (vs @ vs', M'))"
  by (induction as arbitrary: M) (auto split: prod.splits)

lemma script_keeps_append:
  "script_keeps pr ops gen_range keep (as @ bs) M \<longleftrightarrow>
     script_keeps pr ops gen_range keep as M \<and>
     script_keeps pr ops gen_range keep bs (snd (run_script pr ops gen_range as M))"
  by (induction as arbitrary: M) (auto simp: Let_def split: prod.splits)

end
