(* ===== verification/Elections.thy ===== *)
theory Elections
  imports Scripts
begin

text \<open>
  The properties of elections: what a granted vote promises, when a candidate announces a win,
  how often a node votes in a term, and what follows for two winners of one term. Properties
  come first with the lemmas they need; a witness evaluates each conditional property at a
  concrete run of the sample nodes.
\<close>

section \<open>Samples\<close>

definition sample_entry :: "u64 \<Rightarrow> nat log_entry" where
  "sample_entry t = \<lparr>le_term = t, le_command = ClientCommand 7\<rparr>"

definition sample_vote_request :: "node_id \<Rightarrow> request_vote_request" where
  "sample_vote_request c =
     \<lparr>rv_term = 2, rv_candidate_id = c, rv_last_log_index = 0, rv_last_log_term = 0\<rparr>"

definition sample_vote_reply ::
    "node_id \<Rightarrow> request_vote_response_reason \<Rightarrow> request_vote_response" where
  "sample_vote_reply i reason =
     \<lparr>rvr_term = 1, rvr_vote_granted = (reason = RvOk), rvr_id = i, rvr_reason = reason\<rparr>"

text \<open>A follower of the sample cluster that is asked for its vote.\<close>

definition answer_vote_request :: "request_vote_request \<Rightarrow> nat action list" where
  "answer_vote_request req =
     [Run 0 OnRpc, Run 0 OnRpc, Deliver (RequestVote req Alive), Run 0 OnRpc]"

lemmas sample_defs =
  sample_node_def sample_state_def sample_vote_request_def sample_vote_reply_def sample_entry_def
  sample_members_def

lemmas handler_defs =
  rpc_branch_def recv_some_def on_in_rpc_def channel_recv_def respond_to_request_vote_def
  update_current_term_and_voted_for_def on_state_def reset_election_timeout_def timeout_reset_def
  answer_sent_def deliver_def create_channels_def unbounded_channel_def memory_defs

lemma answer_vote_request_run:
  "fst (run_script Checked memory_ops low_end (answer_vote_request (sample_vote_request c))
     (Dispatching (sample_node i (sample_state 1 [])))) = [(2, c)]"
  "script_keeps Checked memory_ops low_end term_kept (answer_vote_request (sample_vote_request c))
     (Dispatching (sample_node i (sample_state 1 [])))"
  by (simp_all add: answer_vote_request_def sample_defs turn_defs handler_defs outcome_simps Let_def
      term_kept_def)

section \<open>One vote per term\<close>

text \<open>
  C8. A node votes at most once in a term, whatever its scheduler, its peers and the clock do and
  whatever its store answers, as long as its term is not lowered: the votes a run casts, for
  itself and for others, in any order of main loop turns, session tasks and messages, name
  pairwise distinct terms.
\<close>

theorem votes_once_per_term:
  assumes "node_run pr ops gen_range term_kept M0 votes M"
  shows "distinct (map fst votes)"
  using run_votes [OF assms] by (simp add: votes_ok_def)

theorem votes_once_per_term_witness:
  "distinct (map fst (fst (run_script Checked memory_ops low_end stand_for_election
     (Dispatching (sample_node 1 (sample_state 1 []))))))"
  by (rule votes_once_per_term [OF script_run [OF stand_for_election_keeps]])
    (simp add: sample_state_def)

section \<open>One winner per term\<close>

text \<open>An election won: the session of \<open>n\<close>, started in its present term, read \<open>replies\<close> and announced.\<close>

definition wins_election ::
    "('s, 'r) state_ops \<Rightarrow> ('s, 'r) raft_node \<Rightarrow> request_vote_response list \<Rightarrow> bool" where
  "wins_election ops n replies \<longleftrightarrow>
     fair_replies ops n replies \<and>
     (case vote_loop ops (length (get_membership ops (nd_state n))) replies
             (vote_session_initialize n) of
        (Ok _, s) \<Rightarrow> announced_win s
      | _ \<Rightarrow> False)"

definition election_term :: "('s, 'r) raft_node \<Rightarrow> u64" where
  "election_term n = nd_current_term n + 1"

text \<open>Every vote the winner counted, its own included, was cast by its voter for that election.\<close>

definition counted_votes_cast ::
    "('s, 'r) raft_node \<Rightarrow> request_vote_response list \<Rightarrow> (node_id \<Rightarrow> vote list) \<Rightarrow> bool" where
  "counted_votes_cast n replies votes =
     (\<forall>v \<in> insert (nd_id n) (set (granters replies)). (election_term n, nd_id n) \<in> set (votes v))"

lemma winner_quorum:
  assumes "wins_election ops n replies"
  shows "vote_quorum (member_ids ops n) (insert (nd_id n) (set (granters replies)))"
  using assms won_session_quorum
  by (auto simp: wins_election_def split: prod.splits outcome.splits)

text \<open>
  Election safety of the nodes alone, with what is counted as an assumption: two candidates of the
  same term and membership that both announce a win are the same node, when the votes each of them
  counted were really cast for it and no voter's term is lowered in its run.
\<close>

theorem election_safety:
  assumes win1: "wins_election ops n1 replies1" and win2: "wins_election ops n2 replies2"
    and members: "member_ids ops n1 = M" "member_ids ops n2 = M"
    and same_term: "election_term n1 = election_term n2"
    and runs: "\<forall>v \<in> M. node_run pr ops gen_range term_kept (Dispatching (start v)) (votes v) (final v)"
    and cast: "counted_votes_cast n1 replies1 votes" "counted_votes_cast n2 replies2 votes"
  shows "nd_id n1 = nd_id n2"
proof -
  let ?t = "election_term n1"
  let ?Q1 = "insert (nd_id n1) (set (granters replies1))"
  let ?Q2 = "insert (nd_id n2) (set (granters replies2))"
  have Q1: "vote_quorum M ?Q1" and Q2: "vote_quorum M ?Q2"
    using winner_quorum [OF win1] winner_quorum [OF win2] members by simp_all
  have choice: "map_of (votes v) ?t = Some c" if "v \<in> M" "(?t, c) \<in> set (votes v)" for v c
    using runs that run_votes votes_ok_choice by metis
  show ?thesis
  proof (rule votes.one_choice [OF Q1 Q2])
    show "map_of (votes v) ?t = Some (nd_id n1)" if "v \<in> ?Q1" for v
      using that Q1 cast(1) by (intro choice) (auto simp: vote_quorum_def counted_votes_cast_def)
    show "map_of (votes v) ?t = Some (nd_id n2)" if "v \<in> ?Q2" for v
      using that Q2 cast(2) same_term
      by (intro choice) (auto simp: vote_quorum_def counted_votes_cast_def)
  qed
qed

definition sample_winner :: "(nat memory_state, nat) raft_node" where
  "sample_winner = (sample_node 1 (sample_state 1 []))\<lparr>nd_current_state := Candidate\<rparr>"

definition sample_grants :: "request_vote_response list" where
  "sample_grants = [sample_vote_reply 2 RvOk, sample_vote_reply 3 RvOk]"

definition sample_script :: "node_id \<Rightarrow> nat action list" where
  "sample_script v =
     (if v = 1 then stand_for_election else answer_vote_request (sample_vote_request 1))"

lemma sample_win: "wins_election memory_ops sample_winner sample_grants"
  by (simp add: wins_election_def fair_replies_def other_members_def sample_winner_def
      sample_grants_def sample_defs is_hashmap_def on_vote_response_def vote_session_initialize_def
      on_vote_result_def channel_send_def bounded_channel_def channel_full_def announced_win_def
      node_change_defs bind_c_def outcome_simps)

definition sample_votes :: "node_id \<Rightarrow> vote list" where
  "sample_votes v = fst (run_script Checked memory_ops low_end (sample_script v)
     (Dispatching (sample_node v (sample_state 1 []))))"

lemma sample_votes_eq: "sample_votes v = [(2, 1)]"
  by (simp add: sample_votes_def sample_script_def answer_vote_request_run(1) stand_for_election_run)
    (simp add: sample_state_def)

lemma sample_counted: "counted_votes_cast sample_winner sample_grants sample_votes"
  by (simp add: counted_votes_cast_def sample_votes_eq sample_grants_def sample_winner_def
      election_term_def sample_node_def sample_state_def sample_vote_reply_def)

lemma sample_script_keeps:
  "script_keeps Checked memory_ops low_end term_kept (sample_script v)
     (Dispatching (sample_node v (sample_state 1 [])))"
proof (cases "v = 1")
  case True
  then show ?thesis
    by (simp add: sample_script_def) (rule stand_for_election_keeps, simp add: sample_state_def)
qed (simp add: sample_script_def answer_vote_request_run(2))

theorem election_safety_witness:
  "wins_election memory_ops sample_winner sample_grants \<and>
   counted_votes_cast sample_winner sample_grants sample_votes \<and>
   nd_id sample_winner = nd_id sample_winner"
proof (intro conjI sample_win sample_counted)
  have "\<forall>v \<in> member_ids memory_ops sample_winner.
      node_run Checked memory_ops low_end term_kept (Dispatching (sample_node v (sample_state 1 [])))
        (sample_votes v) (snd (run_script Checked memory_ops low_end (sample_script v)
           (Dispatching (sample_node v (sample_state 1 [])))))"
    unfolding sample_votes_def by (intro ballI script_run sample_script_keeps)
  then show "nd_id sample_winner = nd_id sample_winner"
    by (rule election_safety [OF sample_win sample_win refl refl refl _ sample_counted sample_counted])
qed

section \<open>A term that is lowered\<close>

text \<open>The answers that count: a grant for a log that is not behind in an open term, and a refusal for one that is.\<close>

context total_log
begin

lemma vote_is_granted:
  assumes "nd_current_term n \<le> rv_term req" "nd_current_term n = rv_term req \<Longrightarrow> nd_voted_for n = None"
    and "own_position ops (nd_state n) \<le> request_position req"
  obtains r n' where "respond_to_request_vote ops req Alive n = (Ok r, n')" "rvr_vote_granted r"
proof -
  obtain r n' where run: "respond_to_request_vote ops req Alive n = (Ok r, n')" using vote_answered by blast
  with vote_decision [OF run] assms show thesis by (auto simp: log_up_to_date_position intro: that)
qed

lemma vote_is_incomplete:
  assumes "nd_current_term n < rv_term req" and "request_position req < own_position ops (nd_state n)"
  obtains r n' where "respond_to_request_vote ops req Alive n = (Ok r, n')" "rvr_reason r = RvIncompleteLog"
    "rvr_term r = nd_current_term n"
proof -
  obtain r n' where run: "respond_to_request_vote ops req Alive n = (Ok r, n')" using vote_answered by blast
  have "rvr_reason r = RvIncompleteLog"
    using run
  proof (cases rule: respond_to_request_voteE)
    case (considered s1 s2)
    with assms(2) vote_store(6) [OF considered(3,4)] show ?thesis by (simp add: log_up_to_date_position not_le)
  qed (use assms(1) in simp_all)
  with run vote_reply_term [OF run] show thesis by (intro that)
qed

lemma own_position_log: "log_of s' = log_of s \<Longrightarrow> own_position ops s' = own_position ops s"
  by (simp add: own_position_def last_index_law last_term_law)

lemma step_down_runs:
  assumes "steps_down r"
  obtains v' where "on_vote_response ops k r v = (Ok Break, v')" "nd_current_term (vs_node v') = rvr_term r"
    "nd_current_state (vs_node v') = Follower" "nd_voted_for (vs_node v') = nd_voted_for (vs_node v)"
    "own_position ops (nd_state (vs_node v')) = own_position ops (nd_state (vs_node v))"
proof -
  obtain st where st: "store_current_term ops (rvr_term r) (nd_state (vs_node v)) = (Ok (), st)"
    by (rule store_term_runs)
  let ?v = "v\<lparr>vs_node := (vs_node v)\<lparr>nd_state := st, nd_current_term := rvr_term r, nd_current_state := Follower\<rparr>\<rparr>"
  have "on_vote_response ops k r v = (Ok Break, ?v)"
    using assms st by (auto simp: on_vote_response_def steps_down_def on_vs_node_def zoom_c_def update_current_term_def
        on_state_run change_to_follower_state_def bind_c_def outcome_simps)
  moreover have "own_position ops st = own_position ops (nd_state (vs_node v))"
    using own_position_log store_term_law [OF st] by blast
  ultimately show thesis by (intro that [of ?v]) simp_all
qed

end

definition longer_log_voter :: "(nat memory_state, nat) raft_node" where
  "longer_log_voter = sample_node 2 (sample_state 1 [sample_entry 1])"

text \<open>
  C10. Two votes in one term, for any candidate over any lawful store: the session has voted for its own
  node in its term. Any voter that is in an older term and whose log ends after the candidate's answers
  the session's own request with \<open>IncompleteLog\<close> and the term it had before the request; the candidate
  steps down to that older term and keeps its log. It then grants its vote to every rival that asks in
  the term in which it has already voted for itself, if the rival's log is not behind.
\<close>

theorem node_votes_twice_in_term:
  assumes store: "total_log ops log_of base" and voter_store: "total_log vops vlog_of vbase"
    and session: "v = vote_session_initialize n"
    and behind: "nd_current_term voter < nd_current_term (vs_node v)"
    and longer: "own_position ops (nd_state n) < own_position vops (nd_state voter)"
    and rival: "rv_term req = nd_current_term (vs_node v)" "own_position ops (nd_state n) \<le> request_position req"
  shows "nd_voted_for (vs_node v) = Some (nd_id n) \<and>
    (\<exists>r voter' v' r' n'.
      respond_to_request_vote vops (request_vote_request_of ops (vs_node v)) Alive voter = (Ok r, voter') \<and>
      rvr_reason r = RvIncompleteLog \<and>
      on_vote_response ops k r v = (Ok Break, v') \<and>
      nd_current_term (vs_node v') = nd_current_term voter \<and> nd_current_state (vs_node v') = Follower \<and>
      respond_to_request_vote ops req Alive (vs_node v') = (Ok r', n') \<and>
      rvr_vote_granted r' \<and> nd_current_term n' = nd_current_term (vs_node v) \<and>
      nd_voted_for n' = Some (rv_candidate_id req))"
proof -
  let ?ask = "request_vote_request_of ops (vs_node v)"
  have node: "nd_voted_for (vs_node v) = Some (nd_id n)" "nd_state (vs_node v) = nd_state n"
    by (simp_all add: session vote_session_initialize_def node_change_defs)
  have "nd_current_term voter < rv_term ?ask" using behind by (simp add: request_vote_request_of_def)
  then obtain r voter' where refused: "respond_to_request_vote vops ?ask Alive voter = (Ok r, voter')"
    "rvr_reason r = RvIncompleteLog" "rvr_term r = nd_current_term voter"
    by (rule total_log.vote_is_incomplete [OF voter_store]) (use longer node in simp_all)
  then have "steps_down r" by (simp add: steps_down_def)
  then obtain v' where down: "on_vote_response ops k r v = (Ok Break, v')" "nd_current_term (vs_node v') = rvr_term r"
    "nd_current_state (vs_node v') = Follower" "own_position ops (nd_state (vs_node v')) = own_position ops (nd_state n)"
    by (rule total_log.step_down_runs [OF store, of r k v]) (simp add: node)
  obtain r' n' where granted: "respond_to_request_vote ops req Alive (vs_node v') = (Ok r', n')" "rvr_vote_granted r'"
    by (rule total_log.vote_is_granted [OF store, of "vs_node v'" req]) (use behind rival down refused(3) in auto)
  from vote_granted_state [OF granted] rival(1) granted down refused node(1) show ?thesis by metis
qed

theorem node_votes_twice_in_term_witness:
  "\<exists>r voter' v' r' n'.
     respond_to_request_vote memory_ops (sample_vote_request 1) Alive longer_log_voter = (Ok r, voter') \<and>
     on_vote_response memory_ops 3 r (vote_session_initialize sample_winner) = (Ok Break, v') \<and>
     respond_to_request_vote memory_ops (sample_vote_request 3) Alive (vs_node v') = (Ok r', n') \<and>
     rvr_vote_granted r' \<and> nd_current_term n' = 2 \<and> nd_voted_for n' = Some 3"
proof -
  have facts: "nd_current_term (vs_node (vote_session_initialize sample_winner)) = 2"
    "request_vote_request_of memory_ops (vs_node (vote_session_initialize sample_winner)) = sample_vote_request 1"
    "own_position memory_ops (nd_state sample_winner) = Log_Position 0 0"
    "own_position memory_ops (nd_state longer_log_voter) = Log_Position 1 1" "nd_current_term longer_log_voter = 1"
    "nd_current_term sample_winner = 1"
    "rv_term (sample_vote_request 3) = 2" "rv_candidate_id (sample_vote_request 3) = 3"
    "request_position (sample_vote_request 3) = Log_Position 0 0"
    by (simp_all add: vote_session_initialize_def node_change_defs sample_winner_def request_vote_request_of_def
        longer_log_voter_def own_position_def request_position_def sample_defs memory_defs)
  have "nd_voted_for (vs_node (vote_session_initialize sample_winner)) = Some (nd_id sample_winner) \<and>
    (\<exists>r voter' v' r' n'.
      respond_to_request_vote memory_ops (request_vote_request_of memory_ops (vs_node (vote_session_initialize sample_winner)))
        Alive longer_log_voter = (Ok r, voter') \<and>
      rvr_reason r = RvIncompleteLog \<and>
      on_vote_response memory_ops 3 r (vote_session_initialize sample_winner) = (Ok Break, v') \<and>
      nd_current_term (vs_node v') = nd_current_term longer_log_voter \<and> nd_current_state (vs_node v') = Follower \<and>
      respond_to_request_vote memory_ops (sample_vote_request 3) Alive (vs_node v') = (Ok r', n') \<and>
      rvr_vote_granted r' \<and> nd_current_term n' = nd_current_term (vs_node (vote_session_initialize sample_winner)) \<and>
      nd_voted_for n' = Some (rv_candidate_id (sample_vote_request 3)))"
    by (rule node_votes_twice_in_term [OF memory.total_log_axioms memory.total_log_axioms refl])
      (simp_all add: facts less_log_position_def)
  then show ?thesis unfolding facts by blast
qed

text \<open>
  C11. The only steps of a node that lower its term: handling a \<open>StaleTerm\<close> or \<open>IncompleteLog\<close>
  answer to a vote request, or a \<open>StaleTerm\<close> answer to an append, whose term is below the node's,
  and a new candidacy at the largest \<open>u64\<close>, which wraps to 0. No message from a peer, no client
  request, no timer and no role change does.
\<close>

theorem term_drops_only_by_answers:
  assumes "node_step pr ops gen_range M l M'"
    and "nd_current_term (main_node M') < nd_current_term (main_node M)"
  shows "(\<exists>r. l = VoteAnswer r \<and> rvr_reason r \<in> {RvStaleTerm, RvIncompleteLog}
             \<and> rvr_term r < nd_current_term (main_node M)) \<or>
    (\<exists>r. l = AppendAnswer r \<and> aer_reason r = AeStaleTerm
             \<and> aer_term r < nd_current_term (main_node M)) \<or>
    (l = Turn [(0, nd_id (main_node M))] \<and> nd_current_term (main_node M) = - 1)"
  using node_step_frame [OF assms(1)] assms(2)
  by (cases l) (auto simp: node_frame_def steps_down_def leader_stale_def wraps_def self_vote_def)

definition sample_standing :: "(nat memory_state, nat) main_task" where
  "sample_standing = CandidateSelect (sample_candidate 1 (sample_state 1 []))"

definition answer_vote ::
    "request_vote_response \<Rightarrow> (nat memory_state, nat) main_task \<Rightarrow> (nat memory_state, nat) main_task" where
  "answer_vote r M = snd (run_action Checked memory_ops low_end (AnswerVote r) M)"

lemma answer_vote_step:
  assumes "vote_session_of M = Some v"
  shows "node_step Checked memory_ops low_end M (VoteAnswer r) (answer_vote r M)"
proof -
  have "in_vote_session v (\<lambda>v'. put_vote_session v' M) M" using assms by (simp add: in_vote_session_def)
  from node_step.vote_answer [OF this prod.collapse [symmetric], where ops = memory_ops and response = r]
  show ?thesis by (simp add: answer_vote_def assms)
qed

lemma sample_step_down:
  "nd_current_term (main_node (answer_vote (sample_vote_reply 2 RvIncompleteLog) sample_standing)) = 1"
  "nd_current_term (main_node sample_standing) = 2"
  by (simp_all add: answer_vote_def sample_standing_def sample_candidate_def on_vote_response_def
      on_vs_node_def update_current_term_def sample_defs handler_defs turn_defs outcome_simps
      vote_session_initialize_def)

theorem term_drops_only_by_answers_witness:
  "rvr_reason (sample_vote_reply 2 RvIncompleteLog) \<in> {RvStaleTerm, RvIncompleteLog} \<and>
   rvr_term (sample_vote_reply 2 RvIncompleteLog) < nd_current_term (main_node sample_standing)"
proof -
  have "node_step Checked memory_ops low_end sample_standing
      (VoteAnswer (sample_vote_reply 2 RvIncompleteLog))
      (answer_vote (sample_vote_reply 2 RvIncompleteLog) sample_standing)"
    by (rule answer_vote_step) (simp add: sample_standing_def)
  from term_drops_only_by_answers [OF this] show ?thesis
    by (simp add: sample_step_down)
qed

section \<open>Who becomes leader\<close>

text \<open>
  C12. A node is promoted to leader by nothing but a turn of a candidate's main loop that finds a
  result on the session's channel: no answer, message, timer or task of an earlier session
  promotes it.
\<close>

theorem leader_only_by_vote_result:
  assumes "node_step pr ops gen_range M l M'"
    and "nd_current_state (main_node M) \<noteq> Leader" and "nd_current_state (main_node M') = Leader"
  shows "\<exists>t votes. M = CandidateSelect t \<and> l = Turn votes \<and> ch_queue (vs_vote_result (ct_session t)) \<noteq> []"
proof -
  have "result_waiting M \<and> is_turn l"
    using node_step_frame [OF assms(1)] assms(2,3) by (simp add: node_frame_def)
  then show ?thesis
    by (cases M; cases l) (simp_all add: result_waiting_def)
qed

definition sample_elected :: "(nat memory_state, nat) main_task" where
  "sample_elected =
     answer_vote (sample_vote_reply 3 RvOk) (answer_vote (sample_vote_reply 2 RvOk) sample_standing)"

definition sample_promoted :: "(nat memory_state, nat) main_task" where
  "sample_promoted = snd (main_turn Checked memory_ops low_end 160000000 OnVoteResult sample_elected)"

lemma sample_promotion:
  "nd_current_state (main_node sample_elected) = Candidate"
  "nd_current_state (main_node sample_promoted) = Leader"
proof -
  obtain t where elected: "sample_elected = CandidateSelect t"
    and "ch_queue (vs_vote_result (ct_session t)) = [Granted]"
    and "nd_current_state (ct_node t) = Candidate"
    by (simp add: sample_elected_def answer_vote_def sample_standing_def sample_candidate_def
        on_vote_response_def sample_defs outcome_simps vote_session_initialize_def
        on_vote_result_def channel_send_def bounded_channel_def channel_full_def memory_defs
        turn_defs)
  then show "nd_current_state (main_node sample_elected) = Candidate"
    "nd_current_state (main_node sample_promoted) = Leader"
    unfolding sample_promoted_def elected
    by (simp_all add: timer_ready_def candidate_branch_def recv_some_def
        on_ct_session_def on_ct_node_def on_vs_node_def on_vote_result_def channel_recv_def
        bind_c_def outcome_simps after_branch_def ct_node_def change_to_leader_state_def)
qed

theorem leader_only_by_vote_result_witness:
  "\<exists>t votes. sample_elected = CandidateSelect t \<and>
     Turn (fst (main_turn Checked memory_ops low_end 160000000 OnVoteResult sample_elected)) = Turn votes \<and>
     ch_queue (vs_vote_result (ct_session t)) \<noteq> []"
proof (rule leader_only_by_vote_result [where M' = sample_promoted])
  show "node_step Checked memory_ops low_end sample_elected
      (Turn (fst (main_turn Checked memory_ops low_end 160000000 OnVoteResult sample_elected))) sample_promoted"
    unfolding sample_promoted_def by (rule node_step.turn [OF prod.collapse [symmetric]])
qed (simp_all add: sample_promotion)

text \<open>
  C13. A node that was built and started never runs into the unimplemented \<open>NonVoter\<close> arm of its
  main loop, and keeps its id and timings, whatever happens: no method of any role makes it a
  non-voter, so the \<open>todo!\<close> of \<open>RaftNode::start\<close> is unreachable.
\<close>

theorem started_node_dispatches:
  assumes "builder_build ops b = Ok n"
    and "node_run pr ops gen_range any_step (Dispatching n) votes M"
  shows "is_ok (node_dispatch (main_node M)) \<and> nd_id (main_node M) = b_id b
    \<and> nd_election_timeout_range (main_node M) = b_election_timeout_range b
    \<and> nd_heartbeat_interval (main_node M) = b_heartbeat_interval b"
proof -
  have "nd_current_state (main_node M) \<noteq> NonVoter"
    using node_run_frame [OF assms(2)] build_fields(4) [OF assms(1)] by (simp add: node_frame_def)
  then have "is_ok (node_dispatch (main_node M))"
    by (simp add: node_dispatch_def split: task_state.split)
  with node_run_frame [OF assms(2)] build_fields [OF assms(1)] show ?thesis
    by (simp add: node_frame_def)
qed

theorem started_node_dispatches_witness:
  "is_ok (node_dispatch (main_node (snd (run_script Checked memory_ops low_end stand_for_election
     (Dispatching (sample_node 1 (sample_state 1 [])))))))"
  using started_node_dispatches [OF sample_node_built script_run [OF script_any]] by blast

section \<open>Granting a vote\<close>

text \<open>
  C14. The decision on a vote request, for a store that does not fail: a listening candidate always
  gets an answer, it is a grant exactly when the request's term is not below the voter's, the
  voter has no vote in that term and the candidate's log is at least as complete as the voter's,
  and it carries the term the voter had before the request.
\<close>

theorem vote_granted_iff:
  assumes store: "total_log ops log_of base"
  shows "\<exists>r n'. respond_to_request_vote ops req Alive n = (Ok r, n') \<and>
    rvr_term r = nd_current_term n \<and> rvr_id r = nd_id n \<and>
    (rvr_vote_granted r \<longleftrightarrow>
       nd_current_term n \<le> rv_term req \<and>
       (nd_current_term n = rv_term req \<longrightarrow> nd_voted_for n = None) \<and>
       (last_log_term (log_of (nd_state n)) < rv_last_log_term req \<or>
        last_log_term (log_of (nd_state n)) = rv_last_log_term req \<and>
        last_log_index (log_of (nd_state n)) \<le> rv_last_log_index req))"
proof -
  obtain r n' where run: "respond_to_request_vote ops req Alive n = (Ok r, n')"
    using total_log.vote_answered [OF store] by blast
  note log = raft_log.log_up_to_date_log [OF total_log.axioms(1) [OF store]]
  from total_log.vote_decision [OF store run] vote_reply_term [OF run] run show ?thesis
    by (auto simp: log)
qed

theorem vote_granted_iff_witness:
  "\<exists>r n'. respond_to_request_vote memory_ops (sample_vote_request 1) Alive longer_log_voter = (Ok r, n') \<and>
     rvr_term r = 1 \<and> \<not> rvr_vote_granted r"
  using vote_granted_iff [OF memory.total_log_axioms, of "sample_vote_request 1" longer_log_voter]
  by (auto simp: longer_log_voter_def sample_defs last_log_term_def)

text \<open>
  C15. A vote is durable before it is sent: when a grant goes out the store already holds the
  request's term and the candidate, the node in memory too, and the log is untouched.
\<close>

theorem granted_vote_is_durable:
  assumes store: "raft_log ops log_of base"
    and run: "respond_to_request_vote ops req tx n = (Ok r, n')" and granted: "rvr_vote_granted r"
  shows "load_current_term ops (nd_state n') = rv_term req \<and>
    load_voted_for ops (nd_state n') = Some (rv_candidate_id req) \<and>
    nd_current_term n' = rv_term req \<and> nd_voted_for n' = Some (rv_candidate_id req) \<and>
    nd_current_state n' = Follower \<and> log_of (nd_state n') = log_of (nd_state n)"
  using raft_log.vote_durable [OF store run granted] vote_granted_state [OF run granted] by simp

definition sample_voter :: "(nat memory_state, nat) raft_node" where
  "sample_voter = sample_node 2 (sample_state 1 [])"

lemma sample_vote:
  "respond_to_request_vote memory_ops (sample_vote_request 1) Alive sample_voter =
     (Ok (sample_vote_reply 2 RvOk),
      sample_voter\<lparr>nd_current_term := 2, nd_voted_for := Some 1,
        nd_state := (sample_state 1 [])\<lparr>ms_current_term := 2, ms_voted_for := Some 1\<rparr>\<rparr>)"
  by (simp add: sample_voter_def sample_defs handler_defs outcome_simps bind_c_def
      node_change_defs Let_def)

theorem granted_vote_is_durable_witness:
  "load_voted_for memory_ops (nd_state (snd (respond_to_request_vote memory_ops
     (sample_vote_request 1) Alive sample_voter))) = Some 1"
  using granted_vote_is_durable [OF memory.raft_log_axioms sample_vote]
  by (simp add: sample_vote sample_vote_reply_def)

text \<open>
  C17. A vote refused for an incomplete log is spent all the same: the refused candidate is stored
  as the node's vote in the request's term, and every other candidate of that term is then
  refused with \<open>AlreadyVoted\<close>, the node staying as it is.
\<close>

theorem refused_vote_is_spent:
  assumes run: "respond_to_request_vote ops req tx n = (Ok r, n')"
    and refused: "rvr_reason r = RvIncompleteLog"
    and other: "rv_term req' = rv_term req"
  shows "\<not> rvr_vote_granted r \<and> nd_voted_for n' = Some (rv_candidate_id req) \<and>
    nd_current_term n' = rv_term req \<and>
    respond_to_request_vote ops req' Alive n' =
      (Ok \<lparr>rvr_term = rv_term req, rvr_vote_granted = False, rvr_id = nd_id n,
           rvr_reason = RvAlreadyVoted\<rparr>, n')"
  using run
proof (cases rule: respond_to_request_voteE)
  case (considered s1 s2)
  with refused other show ?thesis
    by (simp add: respond_to_request_vote_def Let_def split: if_splits)
qed (use refused in simp_all)

definition spent_voter :: "(nat memory_state, nat) raft_node" where
  "spent_voter = longer_log_voter\<lparr>nd_current_term := 2, nd_voted_for := Some 1,
     nd_state := (sample_state 1 [sample_entry 1])\<lparr>ms_current_term := 2, ms_voted_for := Some 1\<rparr>\<rparr>"

lemma sample_refusal:
  "respond_to_request_vote memory_ops (sample_vote_request 1) Alive longer_log_voter =
     (Ok (sample_vote_reply 2 RvIncompleteLog), spent_voter)"
  by (simp add: spent_voter_def longer_log_voter_def sample_defs handler_defs outcome_simps bind_c_def
      node_change_defs Let_def)

theorem refused_vote_is_spent_witness:
  "is_ok (fst (respond_to_request_vote memory_ops (sample_vote_request 3) Alive spent_voter))"
  using refused_vote_is_spent [OF sample_refusal, of "sample_vote_request 3"]
  by (simp add: sample_vote_reply_def sample_vote_request_def)

section \<open>Counting\<close>

text \<open>
  C26. When no answer makes the candidate step down, its loop ends without an error and announces
  the win exactly when its own vote and the granted answers number more than half of the
  membership plus one.
\<close>

theorem win_announced_iff:
  assumes "\<forall>r \<in> set replies. \<not> steps_down r"
  shows "\<exists>s. vote_loop ops m replies (vote_session_initialize n) = (Ok (), s) \<and>
    (announced_win s \<longleftrightarrow> granters replies \<noteq> [] \<and> (m + 1) div 2 < 1 + length (granters replies))"
proof -
  have room: "ch_receiver (vs_vote_result (vote_session_initialize n)) = Alive"
    "\<not> channel_full (vs_vote_result (vote_session_initialize n))"
    by (simp_all add: vote_session_initialize_def bounded_channel_def channel_full_def)
  obtain s where "vote_loop ops m replies (vote_session_initialize n) = (Ok (), s)"
    "ch_queue (vs_vote_result s) =
      (if granters replies \<noteq> [] \<and> (m + 1) div 2 < 1 + length (granters replies) then [Granted] else [])"
    using vote_loop_wins_iff [OF assms room, of ops m] by auto
  then show ?thesis by (auto simp: announced_win_def)
qed

theorem win_announced_iff_witness:
  "\<exists>s. vote_loop memory_ops 3 sample_grants (vote_session_initialize sample_winner) = (Ok (), s) \<and>
     announced_win s"
  using win_announced_iff [of sample_grants memory_ops 3 sample_winner]
  by (simp add: sample_grants_def sample_vote_reply_def steps_down_def)

text \<open>
  C27. In a cluster of \<open>2k + 1\<close> members a majority of \<open>k + 1\<close> votes does not elect: the
  membership already holds the candidate, and the code counts it a second time. With \<open>k\<close> grants
  beside its own vote the candidate announces nothing.
\<close>

theorem odd_majority_not_enough:
  assumes "\<forall>r \<in> set replies. \<not> steps_down r" and "m = 2 * k + 1"
    and "1 + length (granters replies) = k + 1"
  shows "\<exists>s. vote_loop ops m replies (vote_session_initialize n) = (Ok (), s) \<and>
    \<not> announced_win s \<and> m < 2 * vs_granted_votes s"
proof -
  have room: "ch_receiver (vs_vote_result (vote_session_initialize n)) = Alive"
    "\<not> channel_full (vs_vote_result (vote_session_initialize n))"
    by (simp_all add: vote_session_initialize_def bounded_channel_def channel_full_def)
  from vote_loop_wins_iff [OF assms(1) room, of ops m] assms(2,3)
  obtain s where run: "vote_loop ops m replies (vote_session_initialize n) = (Ok (), s)"
    and none: "ch_queue (vs_vote_result s) = []"
    by auto
  from vote_loop_all_read [OF assms(1) run] none assms(2,3)
  have "vs_granted_votes s = k + 1" by simp
  with run none assms(2) show ?thesis by (auto simp: announced_win_def)
qed

theorem odd_majority_not_enough_witness:
  "\<exists>s. vote_loop memory_ops 3 [sample_vote_reply 2 RvOk] (vote_session_initialize sample_winner)
        = (Ok (), s) \<and> \<not> announced_win s \<and> 3 < 2 * vs_granted_votes s"
  by (rule odd_majority_not_enough [where k = 1]) (simp_all add: sample_vote_reply_def steps_down_def)

section \<open>Candidacy and the store\<close>

text \<open>
  C28. A candidacy is lost by a restart, for any node over any lawful store whose stored term is below
  the candidacy's: opening the session votes for the node itself but writes nothing to the store, so a
  node rebuilt from the store, with whatever other settings, is back in the stored term and grants its
  vote to every rival that asks in the candidacy's term with a log that is not behind - a second vote
  in that term.
\<close>

theorem candidacy_is_lost_by_restart:
  assumes store: "total_log ops log_of base" and session: "v = vote_session_initialize n"
    and rebuilt: "builder_build ops b = Ok m" "b_state b = nd_state (vs_node v)"
    and members: "get_membership ops (nd_state n) \<noteq> []"
    and persisted: "load_current_term ops (nd_state n) < nd_current_term (vs_node v)"
    and rival: "rv_term req = nd_current_term (vs_node v)" "own_position ops (nd_state n) \<le> request_position req"
  shows "nd_voted_for (vs_node v) = Some (nd_id n) \<and> nd_current_term m = load_current_term ops (nd_state n) \<and>
    (\<exists>r m'. respond_to_request_vote ops req Alive m = (Ok r, m') \<and> rvr_vote_granted r \<and>
       nd_current_term m' = nd_current_term (vs_node v) \<and> nd_voted_for m' = Some (rv_candidate_id req))"
proof -
  have node: "nd_voted_for (vs_node v) = Some (nd_id n)" "nd_state (vs_node v) = nd_state n"
    by (simp_all add: session vote_session_initialize_def node_change_defs)
  with rebuilt build_fields(2) [OF rebuilt(1)] build_state [OF rebuilt(1)] members
  have m: "nd_current_term m = load_current_term ops (nd_state n)" "nd_state m = nd_state n" by simp_all
  obtain r m' where granted: "respond_to_request_vote ops req Alive m = (Ok r, m')" "rvr_vote_granted r"
    by (rule total_log.vote_is_granted [OF store, of m req]) (use m persisted rival in auto)
  from vote_granted_state [OF granted] granted rival(1) m(1) node(1) show ?thesis by auto
qed

theorem candidacy_is_lost_by_restart_witness:
  "nd_voted_for (vs_node (vote_session_initialize (sample_node 1 (sample_state 1 [])))) = Some 1 \<and>
   (\<exists>r m'. respond_to_request_vote memory_ops (sample_vote_request 3) Alive (sample_node 1 (sample_state 1 [])) = (Ok r, m') \<and>
      rvr_vote_granted r \<and> nd_voted_for m' = Some 3)"
proof -
  let ?n = "sample_node 1 (sample_state 1 [])"
  have facts: "nd_current_term (vs_node (vote_session_initialize ?n)) = 2" "nd_id ?n = 1"
    "nd_state (vs_node (vote_session_initialize ?n)) = sample_state 1 []" "nd_state ?n = sample_state 1 []"
    "rv_term (sample_vote_request 3) = 2" "rv_candidate_id (sample_vote_request 3) = 3"
    by (simp_all add: vote_session_initialize_def node_change_defs sample_node_def sample_state_def sample_vote_request_def)
  have built: "builder_build memory_ops (sample_builder 1 (sample_state 1 [])) = Ok ?n"
    "b_state (sample_builder 1 (sample_state 1 [])) = nd_state (vs_node (vote_session_initialize ?n))"
    by (rule sample_node_built) (simp add: facts sample_builder_def builder_channels_def builder_id_def builder_state_def)
  have "nd_voted_for (vs_node (vote_session_initialize ?n)) = Some (nd_id ?n) \<and>
    nd_current_term ?n = load_current_term memory_ops (nd_state ?n) \<and>
    (\<exists>r m'. respond_to_request_vote memory_ops (sample_vote_request 3) Alive ?n = (Ok r, m') \<and> rvr_vote_granted r \<and>
       nd_current_term m' = nd_current_term (vs_node (vote_session_initialize ?n)) \<and>
       nd_voted_for m' = Some (rv_candidate_id (sample_vote_request 3)))"
    by (rule candidacy_is_lost_by_restart [OF memory.total_log_axioms refl built])
      (simp_all add: sample_defs own_position_def request_position_def memory_defs vote_session_initialize_def
        node_change_defs)
  then show ?thesis unfolding facts by blast
qed

text \<open>
  C16. A vote granted to another candidate survives a restart: a node built from the store the voter
  left behind, with whatever other settings, refuses every other request of that term as already
  voted, and is not changed by it.
\<close>

theorem grant_survives_restart:
  assumes store: "raft_log ops log_of base"
    and run: "respond_to_request_vote ops req tx n = (Ok r, n')" and granted: "rvr_vote_granted r"
    and rebuilt: "builder_build ops b = Ok m" "b_state b = nd_state n'"
    and again: "rv_term req' = rv_term req"
  shows "respond_to_request_vote ops req' Alive m =
    (Ok \<lparr>rvr_term = rv_term req, rvr_vote_granted = False, rvr_id = b_id b, rvr_reason = RvAlreadyVoted\<rparr>, m)"
proof -
  have "nd_current_term m = rv_term req" "nd_voted_for m = Some (rv_candidate_id req)"
    using raft_log.vote_durable [OF store run granted] build_fields(2,3) [OF rebuilt(1)] rebuilt(2) by simp_all
  with again build_fields(1) [OF rebuilt(1)] show ?thesis
    by (simp add: respond_to_request_vote_def send_response_def)
qed

definition sample_granted_state :: "nat memory_state" where
  "sample_granted_state = (sample_state 1 [])\<lparr>ms_current_term := 2, ms_voted_for := Some 1\<rparr>"

lemma sample_granted_built:
  "builder_build memory_ops (sample_builder 2 sample_granted_state) = Ok (sample_node 2 sample_granted_state)"
  "b_state (sample_builder 2 sample_granted_state) = sample_granted_state"
  by (simp_all add: builder_build_def sample_builder_def builder_channels_def builder_id_def
      builder_state_def builder_default_def sample_node_def sample_granted_state_def sample_state_def
      sample_members_def)

theorem grant_survives_restart_witness:
  "fst (respond_to_request_vote memory_ops (sample_vote_request 3) Alive (sample_node 2 sample_granted_state)) =
     Ok \<lparr>rvr_term = 2, rvr_vote_granted = False, rvr_id = 2, rvr_reason = RvAlreadyVoted\<rparr>"
  using grant_survives_restart [OF memory.raft_log_axioms sample_vote _ sample_granted_built(1),
      of "sample_vote_request 3"]
  by (simp add: sample_granted_built(2) sample_granted_state_def sample_vote_reply_def sample_vote_request_def
      sample_builder_def builder_channels_def builder_id_def builder_state_def)

section \<open>Someone is electable\<close>

text \<open>
  The test of the candidate's log never rules out everyone: of any nodes over a lawful store one
  has a log that none of them refuses, in whatever term it asks.
\<close>

theorem most_complete_log_is_never_refused:
  assumes store: "raft_log ops log_of base" and N: "finite N" "N \<noteq> {}"
  shows "\<exists>c \<in> N. \<forall>v \<in> N. \<forall>t tx r n'.
    respond_to_request_vote ops ((request_vote_request_of ops c)\<lparr>rv_term := t\<rparr>) tx v = (Ok r, n') \<longrightarrow>
    rvr_reason r \<noteq> RvIncompleteLog"
proof -
  let ?pos = "\<lambda>n. own_position ops (nd_state n)"
  let ?top = "Max (?pos ` N)"
  have "?top \<in> ?pos ` N" using N by (intro Max_in) simp_all
  then obtain c where c: "c \<in> N" "?pos c = ?top" by auto
  have "rvr_reason r \<noteq> RvIncompleteLog" if "v \<in> N"
    "respond_to_request_vote ops ((request_vote_request_of ops c)\<lparr>rv_term := t\<rparr>) tx v = (Ok r, n')"
    for v t tx r n'
  proof
    assume "rvr_reason r = RvIncompleteLog"
    from raft_log.vote_incomplete_log [OF store that(2) this] c(2) have "?top < ?pos v" by simp
    moreover have "?pos v \<le> ?top" using N(1) that(1) by (intro Max_ge) simp_all
    ultimately show False by simp
  qed
  with c(1) show ?thesis by blast
qed

text \<open>A node with an empty log and one with an entry: the second cannot be refused by the first.\<close>

definition sample_full :: "(nat memory_state, nat) raft_node" where
  "sample_full = sample_node 3 (sample_state 1 [sample_entry 1])"

lemma sample_full_refuses:
  "\<exists>n'. respond_to_request_vote memory_ops ((request_vote_request_of memory_ops sample_voter)\<lparr>rv_term := 2\<rparr>) Alive
     sample_full = (Ok \<lparr>rvr_term = 1, rvr_vote_granted = False, rvr_id = 3, rvr_reason = RvIncompleteLog\<rparr>, n')"
  by (simp add: sample_full_def sample_voter_def sample_defs handler_defs outcome_simps bind_c_def
      node_change_defs Let_def request_vote_request_of_def send_response_def)

theorem most_complete_log_is_never_refused_witness:
  "\<exists>r n'. respond_to_request_vote memory_ops ((request_vote_request_of memory_ops sample_full)\<lparr>rv_term := 2\<rparr>) Alive
     sample_voter = (Ok r, n') \<and> rvr_reason r \<noteq> RvIncompleteLog"
proof -
  let ?asks = "\<lambda>c. (request_vote_request_of memory_ops c)\<lparr>rv_term := 2\<rparr>"
  obtain r n' where answered: "respond_to_request_vote memory_ops (?asks sample_full) Alive sample_voter = (Ok r, n')"
    using memory.vote_answered by blast
  obtain n1 where refused: "respond_to_request_vote memory_ops (?asks sample_voter) Alive sample_full =
      (Ok \<lparr>rvr_term = 1, rvr_vote_granted = False, rvr_id = 3, rvr_reason = RvIncompleteLog\<rparr>, n1)"
    using sample_full_refuses by blast
  have "\<exists>c \<in> {sample_voter, sample_full}. \<forall>v \<in> {sample_voter, sample_full}. \<forall>t tx r n'.
      respond_to_request_vote memory_ops ((request_vote_request_of memory_ops c)\<lparr>rv_term := t\<rparr>) tx v = (Ok r, n') \<longrightarrow>
      rvr_reason r \<noteq> RvIncompleteLog"
    by (rule most_complete_log_is_never_refused [OF memory.raft_log_axioms]) simp_all
  then obtain c where c: "c \<in> {sample_voter, sample_full}"
    and fine: "\<And>v r n'. v \<in> {sample_voter, sample_full} \<Longrightarrow>
      respond_to_request_vote memory_ops (?asks c) Alive v = (Ok r, n') \<Longrightarrow> rvr_reason r \<noteq> RvIncompleteLog"
    by blast
  have "c \<noteq> sample_voter"
  proof
    assume "c = sample_voter"
    with fine [OF _ refused [folded \<open>c = sample_voter\<close>]] show False by simp
  qed
  with c have "c = sample_full" by blast
  with fine answered show ?thesis by blast
qed

end
