(* ===== verification/Cluster_Elections.thy ===== *)
theory Cluster_Elections
  imports Cluster Elections
begin

text \<open>
  Elections in a cluster of nodes: safety with nothing assumed of the votes, what a candidate's
  tally is worth, and the refinement of the ballot. A script fixes the order of the cluster's
  steps, and the sample run elects the leader of a cluster of two.
\<close>

section \<open>Running a cluster\<close>

datatype cluster_action =
    TurnAt node_id instant select_branch
  | AnswerAt node_id instant u64
  | AskFrom node_id node_id u64
  | DeliverTo node_id request_vote_request
  | ReadAt asked request_vote_response

fun cluster_do ::
    "profile \<Rightarrow> ('s, 'r) state_ops \<Rightarrow> (u64 \<Rightarrow> u64 \<Rightarrow> u64) \<Rightarrow> cluster_action
       \<Rightarrow> ('s, 'r) cluster \<Rightarrow> ('s, 'r) cluster" where
  "cluster_do pr ops gen_range (TurnAt i now b) C =
     (let M = cl_main C i; C' = moved i (snd (main_turn pr ops gen_range now b M))
                                        (fst (main_turn pr ops gen_range now b M)) C
      in if opens_session gen_range now b M then session_opened i C' else leader_made i M C')"
| "cluster_do pr ops gen_range (AnswerAt i now st) C =
     (let M = cl_main C i; C' = moved i (snd (main_turn pr ops gen_range now OnRpc M))
                                        (fst (main_turn pr ops gen_range now OnRpc M)) C
      in case turn_answer ops now OnRpc M of
           None \<Rightarrow> C
         | Some (req, r) \<Rightarrow>
             C'\<lparr>cl_answers := insert ((i, rv_candidate_id req, st, req), r) (cl_answers C')\<rparr>)"
| "cluster_do pr ops gen_range (AskFrom j p st) C =
     (let C' = moved j (put_node (snd (emit_request_vote ops p (cl_node C j))) (cl_main C j)) [] C
      in C'\<lparr>cl_requests := insert (p, j, st, request_vote_request_of ops (cl_node C j)) (cl_requests C')\<rparr>)"
| "cluster_do pr ops gen_range (DeliverTo i req) C =
     moved i (put_node (deliver (RequestVote req Alive) (cl_node C i)) (cl_main C i)) [] C"
| "cluster_do pr ops gen_range (ReadAt a r) C =
     (case a of (p, j, st, req) \<Rightarrow>
        (case vote_session_of (cl_main C j) of
           None \<Rightarrow> C
         | Some v \<Rightarrow> answer_read a r (moved j (put_vote_session (snd (on_vote_response ops
             (length (get_membership ops (nd_state (vs_node v)))) r v)) (cl_main C j)) [] C)))"

text \<open>Whether an action is a step of the cluster.\<close>

fun cluster_may ::
    "profile \<Rightarrow> ('s, 'r) state_ops \<Rightarrow> (u64 \<Rightarrow> u64 \<Rightarrow> u64)
       \<Rightarrow> (('s, 'r) raft_node \<Rightarrow> ('s, 'r) raft_node \<Rightarrow> bool) \<Rightarrow> node_id set \<Rightarrow> cluster_action
       \<Rightarrow> ('s, 'r) cluster \<Rightarrow> bool" where
  "cluster_may pr ops gen_range keep Mem (TurnAt i now b) C =
     (i \<in> Mem \<and> turn_answer ops now b (cl_main C i) = None \<and>
      keep (cl_node C i) (main_node (snd (main_turn pr ops gen_range now b (cl_main C i)))))"
| "cluster_may pr ops gen_range keep Mem (AnswerAt i now st) C =
     (i \<in> Mem \<and>
      (case turn_answer ops now OnRpc (cl_main C i) of
         None \<Rightarrow> False
       | Some (req, r) \<Rightarrow> (i, rv_candidate_id req, st, req) \<in> cl_requests C) \<and>
      keep (cl_node C i) (main_node (snd (main_turn pr ops gen_range now OnRpc (cl_main C i)))))"
| "cluster_may pr ops gen_range keep Mem (AskFrom j p st) C =
     (j \<in> Mem \<and> p \<in> other_members ops (cl_node C j) \<and> (st, j) \<in> set (cl_votes C j) \<and>
      fst (emit_request_vote ops p (cl_node C j)) = Ok ())"
| "cluster_may pr ops gen_range keep Mem (DeliverTo i req) C = (i \<in> Mem)"
| "cluster_may pr ops gen_range keep Mem (ReadAt a r) C =
     ((a, r) \<in> cl_answers C \<and>
      (case a of (p, j, st, req) \<Rightarrow> st = cl_session C j \<and>
         (case vote_session_of (cl_main C j) of
            None \<Rightarrow> False
          | Some v \<Rightarrow> keep (cl_node C j) (vs_node (snd (on_vote_response ops
              (length (get_membership ops (nd_state (vs_node v)))) r v))))))"

fun cluster_script ::
    "profile \<Rightarrow> ('s, 'r) state_ops \<Rightarrow> (u64 \<Rightarrow> u64 \<Rightarrow> u64)
       \<Rightarrow> (('s, 'r) raft_node \<Rightarrow> ('s, 'r) raft_node \<Rightarrow> bool) \<Rightarrow> node_id set \<Rightarrow> cluster_action list
       \<Rightarrow> ('s, 'r) cluster \<Rightarrow> ('s, 'r) cluster option" where
  "cluster_script pr ops gen_range keep Mem [] C = Some C"
| "cluster_script pr ops gen_range keep Mem (a # as) C =
     (if cluster_may pr ops gen_range keep Mem a C
      then cluster_script pr ops gen_range keep Mem as (cluster_do pr ops gen_range a C) else None)"

lemma cluster_do_step:
  assumes kept: "\<And>n ch. keep n (n\<lparr>nd_channels := ch\<rparr>)" and "cluster_may pr ops gen_range keep Mem a C"
  shows "cluster_step pr ops gen_range keep Mem C (cluster_do pr ops gen_range a C)"
proof (cases a)
  case (TurnAt i now b)
  with assms show ?thesis
    by (auto simp: Let_def intro: cluster_step.turn cluster_step.session_turn prod.collapse [symmetric])
next
  case (AnswerAt i now st)
  with assms obtain req r where answer: "turn_answer ops now OnRpc (cl_main C i) = Some (req, r)"
    by (auto split: option.splits)
  from AnswerAt assms answer have may: "i \<in> Mem" "(i, rv_candidate_id req, st, req) \<in> cl_requests C"
    "keep (cl_node C i) (main_node (snd (main_turn pr ops gen_range now OnRpc (cl_main C i))))"
    by simp_all
  from cluster_step.answering [where keep = keep, OF may(1) prod.collapse [symmetric] answer may(2,3) refl] AnswerAt answer
  show ?thesis by (simp add: Let_def)
next
  case (AskFrom j p st)
  obtain r n' where emit: "emit_request_vote ops p (cl_node C j) = (r, n')" by force
  with AskFrom assms have "r = Ok ()" and may: "j \<in> Mem" "p \<in> other_members ops (cl_node C j)"
    "(st, j) \<in> set (cl_votes C j)"
    by simp_all
  with cluster_step.asking [OF may _ refl, of n'] AskFrom emit show ?thesis by (simp add: Let_def)
next
  case (DeliverTo i req)
  with assms show ?thesis
    by (auto simp: deliver_def cl_node_def kept
        intro!: cluster_step.other [where l = Outside] node_step.outside)
next
  case (ReadAt x r)
  obtain p j st req where x: "x = (p, j, st, req)" by (cases x)
  with ReadAt assms obtain v where "vote_session_of (cl_main C j) = Some v" by (auto split: option.splits)
  with x ReadAt assms show ?thesis
    by (auto simp del: answer_read.simps intro!: cluster_step.reading prod.collapse [symmetric])
qed

lemma cluster_script_run:
  assumes kept: "\<And>n ch. keep n (n\<lparr>nd_channels := ch\<rparr>)"
  shows "cluster_script pr ops gen_range keep Mem as C = Some C' \<Longrightarrow> cluster_run pr ops gen_range keep Mem C C'"
proof (induction as arbitrary: C)
  case (Cons a as)
  then have "cluster_step pr ops gen_range keep Mem C (cluster_do pr ops gen_range a C)"
    by (auto intro: cluster_do_step [where keep = keep, OF kept] split: if_splits)
  with Cons show ?case
    by (auto simp: cluster_run_def intro: converse_rtranclp_into_rtranclp split: if_splits)
qed (simp add: cluster_run_def)

section \<open>A cluster of two elects its leader\<close>

definition pair_state :: "nat memory_state" where
  "pair_state = (sample_state 1 [])\<lparr>ms_membership := map (\<lambda>i. (i, SocketAddr 0 0)) [1, 2]\<rparr>"

definition pair_cluster :: "(nat memory_state, nat) cluster" where
  "pair_cluster =
     \<lparr>cl_main = (\<lambda>i. Dispatching (sample_node i pair_state)), cl_votes = (\<lambda>_. []), cl_session = (\<lambda>_. 0),
      cl_counted = (\<lambda>_. {}), cl_requests = {}, cl_answers = {}, cl_elected = {}\<rparr>"

definition pair_stands :: "cluster_action list" where
  "pair_stands =
     [TurnAt 1 0 OnRpc, TurnAt 1 0 OnRpc, TurnAt 1 150000000 OnElectionTimeout,
      TurnAt 1 150000000 OnRpc, TurnAt 1 150000000 OnRpc, TurnAt 1 150000000 OnRpc]"

definition pair_votes :: "cluster_action list" where
  "pair_votes =
     [AskFrom 1 2 2, TurnAt 2 0 OnRpc, TurnAt 2 0 OnRpc, DeliverTo 2 (sample_vote_request 1),
      AnswerAt 2 0 2]"

definition pair_wins :: "cluster_action list" where
  "pair_wins =
     [ReadAt (2, 1, 2, sample_vote_request 1) (sample_vote_reply 2 RvOk),
      TurnAt 1 150000000 OnVoteResult]"

lemma pair_starts: "cluster_starts memory_ops {1, 2} pair_cluster"
  by (auto simp: cluster_starts_def pair_cluster_def cl_node_def sample_node_def pair_state_def
      member_ids_def is_hashmap_def memory_defs)

definition pair_standing :: "(nat memory_state, nat) cluster" where
  "pair_standing = pair_cluster\<lparr>cl_main := (cl_main pair_cluster)(1 := CandidateSelect (sample_candidate 1 pair_state)),
     cl_votes := (cl_votes pair_cluster)(1 := [(2, 1)]), cl_session := (cl_session pair_cluster)(1 := 2)\<rparr>"

lemmas cluster_eval =
  cluster_script.simps cluster_may.simps cluster_do.simps moved_def session_opened_def leader_made_def promoted_def
  term_kept_def cl_node_def turn_answer_def

lemma pair_stands_run:
  "cluster_script Checked memory_ops low_end term_kept {1, 2} pair_stands pair_cluster = Some pair_standing"
  by (simp add: pair_stands_def pair_standing_def pair_cluster_def cluster_eval sample_candidate_def sample_node_def
      turn_defs outcome_simps self_vote_def Let_def pair_state_def sample_state_def vote_session_initialize_def
      fun_eq_iff)

lemmas pair_defs =
  pair_votes_def pair_wins_def pair_standing_def pair_cluster_def pair_state_def sample_candidate_def
  sample_node_def sample_state_def sample_vote_request_def sample_vote_reply_def other_members_def
  emit_request_vote_def on_out_rpc_def request_vote_request_of_def vote_session_initialize_def
  on_vote_response_def on_vs_node_def on_vote_result_def counts_def steps_down_def
  candidate_branch_def on_ct_node_def on_ct_session_def
  channel_send_def channel_full_def bounded_channel_def

text \<open>The voter answers, the candidate has counted its vote, the candidate is leader.\<close>

lemma pair_counts:
  "\<exists>C v. cluster_script Checked memory_ops low_end term_kept {1, 2} (pair_votes @ [hd pair_wins]) pair_standing = Some C \<and>
     vote_session_of (cl_main C 1) = Some v \<and> vs_granted_votes v = 2 \<and>
     nd_current_state (cl_node C 1) = Candidate \<and> nd_current_term (cl_node C 1) = 2"
  by (simp add: pair_defs cluster_eval turn_defs handler_defs outcome_simps self_vote_def Let_def)

lemma pair_elects:
  "\<exists>C. cluster_script Checked memory_ops low_end term_kept {1, 2} (pair_votes @ pair_wins) pair_standing = Some C \<and>
     cl_elected C = {(2, 1)}"
  by (simp add: pair_defs cluster_eval turn_defs handler_defs outcome_simps self_vote_def Let_def)

lemma pair_run:
  assumes "cluster_script Checked memory_ops low_end term_kept {1, 2} as pair_standing = Some C"
  shows "cluster_run Checked memory_ops low_end term_kept {1, 2} pair_cluster C"
  using cluster_script_run [OF _ pair_stands_run] cluster_script_run [OF _ assms]
  by (simp add: cluster_run_def term_kept_def)

section \<open>Properties\<close>

text \<open>
  C1. Election safety of a cluster: in every run from a start - whatever the nodes' schedulers and clocks
  do, however their stores fail and messages are delayed, reordered or lost - in which no node's term
  drops, two members that were made leader as candidates of the same term are
  the same node. Nothing is assumed of the votes: that the answers a candidate counts stand for
  votes its voters cast, one per term, is part of what is proved.
\<close>

theorem cluster_election_safety:
  assumes fixed: "fixed_membership ops" and start: "cluster_starts ops Mem C0" and run: "cluster_run pr ops gen_range term_kept Mem C0 C"
    and elected: "(t, c) \<in> cl_elected C" "(t, d) \<in> cl_elected C"
  shows "c = d"
  using ballot_one_winner [OF ballot_steps_ok [OF cluster_run_ballot [OF fixed start run] ballot_empty_ok]] elected
  by simp

theorem cluster_election_safety_witness:
  "\<exists>C. cluster_run Checked memory_ops low_end term_kept {1, 2} pair_cluster C \<and> {c. (2, c) \<in> cl_elected C} = {1}"
proof -
  obtain C where run: "cluster_run Checked memory_ops low_end term_kept {1, 2} pair_cluster C"
    and elected: "cl_elected C = {(2, 1)}"
    using pair_elects pair_run by blast
  then have "{c. (2, c) \<in> cl_elected C} = {1}"
    using cluster_election_safety [OF memory.fixed_membership_axioms pair_starts run, of 2 _ 1] by auto
  with run show ?thesis by blast
qed

text \<open>
  C5. A cluster implements the ballot: every run of the nodes from a start, in which no node's term drops
  and over stores that leave the membership alone, is a run of the abstract machine in which a voter
  of the electorate chooses once per term and a leader is elected by a quorum of choices, or as the
  only member. Without the condition on the terms it need not be: the run of theory Split_Vote elects
  two in one term.
\<close>

theorem cluster_refines_ballot:
  assumes fixed: "fixed_membership ops" and start: "cluster_starts ops Mem C0" and run: "cluster_run pr ops gen_range term_kept Mem C0 C"
  shows "(ballot_step Mem)\<^sup>*\<^sup>* ballot_empty (cluster_ballot Mem C)"
  by (rule cluster_run_ballot [OF fixed start run])

theorem cluster_refines_ballot_witness:
  "\<exists>B. (ballot_step {1, 2})\<^sup>*\<^sup>* ballot_empty B \<and> (2, 1) \<in> bl_elected B"
proof -
  obtain C where run: "cluster_run Checked memory_ops low_end term_kept {1, 2} pair_cluster C"
    and elected: "cl_elected C = {(2, 1)}"
    using pair_elects pair_run by blast
  with cluster_refines_ballot [OF memory.fixed_membership_axioms pair_starts run] show ?thesis
    by (intro exI [of _ "cluster_ballot {1, 2} C"]) simp
qed

text \<open>
  C6. A candidate does not count more votes than were cast for it: in every run from a start in which no
  node's term drops, over stores that leave the membership alone, the count of its session is at most
  the number of members that voted for it in its present term, as long as it stands, through retries,
  restarted sessions and answers that arrive late.
\<close>

theorem tally_counts_cast_votes:
  assumes fixed: "fixed_membership ops" and start: "cluster_starts ops Mem C0" and run: "cluster_run pr ops gen_range term_kept Mem C0 C"
    and j: "j \<in> Mem" and session: "vote_session_of (cl_main C j) = Some v"
    and state: "nd_current_state (cl_node C j) = Candidate"
  shows "vs_granted_votes v \<le> card {p \<in> Mem. (nd_current_term (cl_node C j), j) \<in> set (cl_votes C p)}"
proof -
  have ok: "cluster_ok ops Mem C" by (rule cluster_run_ok [OF fixed run cluster_starts_ok [OF start]])
  with j session state have tally: "tally_right Mem C j v" by (simp add: cluster_ok_def tally_ok_def)
  let ?V = "{p \<in> Mem. (cl_session C j, j) \<in> set (cl_votes C p)}"
  have fin: "finite ?V" using members_ok_card [of ops Mem C j] ok j by (simp add: cluster_ok_def)
  have sub: "insert j (cl_counted C j) \<subseteq> ?V" and j': "j \<notin> cl_counted C j"
    using ok j tally by (auto simp: cluster_ok_def counted_ok_def tally_right_def)
  have "card (insert j (cl_counted C j)) = 1 + card (cl_counted C j)"
    using j' finite_subset [OF sub fin] by simp
  with card_mono [OF fin sub] tally show ?thesis by (simp add: tally_right_def)
qed

theorem tally_counts_cast_votes_witness:
  "\<exists>C. cluster_run Checked memory_ops low_end term_kept {1, 2} pair_cluster C \<and>
     2 \<le> card {p \<in> {1, 2}. (2, 1) \<in> set (cl_votes C p)}"
proof -
  obtain C v where run: "cluster_run Checked memory_ops low_end term_kept {1, 2} pair_cluster C"
    and v: "vote_session_of (cl_main C 1) = Some v" "vs_granted_votes v = 2"
      "nd_current_state (cl_node C 1) = Candidate" "nd_current_term (cl_node C 1) = 2"
    using pair_counts pair_run by blast
  from tally_counts_cast_votes [OF memory.fixed_membership_axioms pair_starts run _ v(1,3)] v(2,4) run show ?thesis by auto
qed

section \<open>A node alone\<close>

definition silent_turns :: "instant \<Rightarrow> 'r action list" where
  "silent_turns d = [Run 0 OnRpc, Run 0 OnRpc, Run d OnElectionTimeout, Run d OnRpc, Run d OnRpc, Run d OnRpc]"

lemma silent_follower_stands:
  assumes "nd_current_state n = Follower" and "nd_election_timeout_range n = (lo, hi)" and "lo < hi"
  shows "\<exists>t. run_script pr ops gen_range (silent_turns (from_millis (gen_range lo hi))) (Dispatching n) =
      ([self_vote n], CandidateSelect t) \<and>
    ct_session t = vote_session_initialize (n\<lparr>nd_current_state := Candidate\<rparr>) \<and>
    deadline (ct_election_timeout t) = 2 * from_millis (gen_range lo hi)"
  using assms
  by (simp add: silent_turns_def turn_eval self_vote_def outcome_simps vote_session_initialize_def)

text \<open>
  A node without peers becomes leader: from its start as a follower, with a valid range of
  election timeouts, the turns of the main loop and its session's task lead to a leader of the next
  term that has voted once, for itself - whatever the store, the random timeout and the heartbeat
  interval are.
\<close>

theorem lone_node_leads:
  assumes start: "nd_current_state n = Follower" "nd_election_timeout_range n = (lo, hi)" "lo < hi"
    and alone: "other_members ops n = {}"
  shows "\<exists>M. node_run pr ops gen_range any_step (Dispatching n) [self_vote n] M \<and>
    nd_current_state (main_node M) = Leader \<and> nd_current_term (main_node M) = nd_current_term n + 1"
proof -
  let ?as = "silent_turns (from_millis (gen_range lo hi)) :: 'b action list"
  obtain t where script: "run_script pr ops gen_range ?as (Dispatching n) = ([self_vote n], CandidateSelect t)"
    and session: "ct_session t = vote_session_initialize (n\<lparr>nd_current_state := Candidate\<rparr>)"
    and dl: "deadline (ct_election_timeout t) = 2 * from_millis (gen_range lo hi)"
    using silent_follower_stands [OF start] by blast
  have run: "node_run pr ops gen_range any_step (Dispatching n) [self_vote n] (CandidateSelect t)"
    using script_run [where as = ?as and ?M0.0 = "Dispatching n" and pr = pr and ops = ops and gen_range = gen_range,
        OF script_any] script by simp
  let ?v = "ct_session t"
  let ?v' = "?v\<lparr>vs_vote_result := (vs_vote_result ?v)\<lparr>ch_queue := [NoPeers]\<rparr>\<rparr>"
  have asked: "get_unack_peers ops ?v = (Ok None, ?v')"
    using alone
    by (simp add: session get_unack_peers_def Let_def other_members_def vote_session_initialize_def
        node_change_defs on_vote_result_def channel_send_def channel_full_def bounded_channel_def outcome_simps
        bind_c_def)
  have "in_vote_session ?v (\<lambda>w. put_vote_session w (CandidateSelect t)) (CandidateSelect t)"
    by (simp add: in_vote_session_def)
  from node_run.step [OF run node_step.ask_peers [OF this asked]]
  have run: "node_run pr ops gen_range any_step (Dispatching n) [self_vote n]
      (CandidateSelect (t\<lparr>ct_session := ?v'\<rparr>))"
    by (simp add: any_step_def)
  let ?now = "from_millis (gen_range lo hi)"
  obtain M where turn: "main_turn pr ops gen_range ?now OnVoteResult (CandidateSelect (t\<lparr>ct_session := ?v'\<rparr>)) = ([], M)"
    and lead: "nd_current_state (main_node M) = Leader" "nd_current_term (main_node M) = nd_current_term n + 1"
    by (simp add: session timer_ready_def session_restarts_def rpc_votes_def rpc_answer_def vote_in_def
        candidate_branch_def recv_some_def on_ct_session_def on_ct_node_def on_vs_node_def on_vote_result_def
        channel_recv_def after_branch_def node_change_defs vote_session_initialize_def outcome_simps bind_c_def
        ct_node_def)
  from node_run.step [OF run node_step.turn [OF turn]] lead show ?thesis
    by (auto simp: any_step_def)
qed

definition lone_sample :: "(nat memory_state, nat) raft_node" where
  "lone_sample = sample_node 1 ((sample_state 1 [])\<lparr>ms_membership := [(1, SocketAddr 0 0)]\<rparr>)"

theorem lone_node_leads_witness:
  "\<exists>M. node_run Checked memory_ops low_end any_step (Dispatching lone_sample) [(2, 1)] M \<and>
     nd_current_state (main_node M) = Leader \<and> nd_current_term (main_node M) = 2"
  using lone_node_leads [of lone_sample 150 300 memory_ops Checked low_end]
  by (simp add: lone_sample_def sample_node_def sample_state_def other_members_def memory_defs self_vote_def)

end
