(* ===== verification/Cluster_Liveness.thy ===== *)
theory Cluster_Liveness
  imports Cluster_Elections
begin

text \<open>
  That a cluster can always elect. Safety holds of a cluster that does nothing; here it is shown
  that from a fresh start there is a run of the nodes' machines, with nothing lost and no term
  dropped, that makes any node whose log no other member's exceeds the leader of any term above the members'
  terms. Such a node exists, as log positions are linearly ordered. The run is built in stages:
  the node waits for its election timeout and stands, stands again until its term is the one
  wanted, asks one voter after the other and counts each answer, and takes up the result.
\<close>

section \<open>A fresh cluster\<close>

text \<open>Nodes as \<open>RaftNode::start\<close> finds them: followers with new channels and a range to draw a timeout from.\<close>

definition fresh_member :: "('s, 'r) main_task \<Rightarrow> bool" where
  "fresh_member M \<longleftrightarrow>
     (\<exists>n. M = Dispatching n \<and> nd_current_state n = Follower \<and> nd_channels n = create_channels \<and>
        fst (nd_election_timeout_range n) < snd (nd_election_timeout_range n))"

definition fresh_cluster :: "('s, 'r) state_ops \<Rightarrow> node_id set \<Rightarrow> ('s, 'r) cluster \<Rightarrow> bool" where
  "fresh_cluster ops Mem C \<longleftrightarrow> cluster_starts ops Mem C \<and> (\<forall>i \<in> Mem. fresh_member (cl_main C i))"

text \<open>No member's log ends after the log of \<open>j\<close>.\<close>

definition best_log :: "('s, 'r) state_ops \<Rightarrow> node_id set \<Rightarrow> ('s, 'r) cluster \<Rightarrow> node_id \<Rightarrow> bool" where
  "best_log ops Mem C j \<longleftrightarrow>
     j \<in> Mem \<and> (\<forall>i \<in> Mem. own_position ops (nd_state (cl_node C i)) \<le> own_position ops (nd_state (cl_node C j)))"

lemma best_log_exists:
  assumes "finite Mem" and "Mem \<noteq> {}"
  shows "\<exists>j. best_log ops Mem C j"
proof -
  let ?p = "\<lambda>i. own_position ops (nd_state (cl_node C i))"
  have "Max (?p ` Mem) \<in> ?p ` Mem" using assms by simp
  then obtain j where "j \<in> Mem" and "Max (?p ` Mem) = ?p j" by blast
  with assms show ?thesis unfolding best_log_def by (metis Max_ge finite_imageI imageI)
qed

lemma fresh_memberE:
  assumes "fresh_cluster ops Mem C" and "i \<in> Mem"
  obtains n lo hi where "cl_main C i = Dispatching n" "cl_node C i = n" "nd_id n = i" "nd_current_state n = Follower"
    "nd_channels n = create_channels" "nd_election_timeout_range n = (lo, hi)" "\<not> hi \<le> lo"
  using assms unfolding fresh_cluster_def fresh_member_def cluster_starts_def
  by (metis (no_types, lifting) cl_node_def main_node.simps(1) not_le prod.collapse)

lemma fresh_members:
  assumes "fresh_cluster ops Mem C" and "i \<in> Mem"
  shows "finite Mem" "length (get_membership ops (nd_state (cl_node C i))) = card Mem"
    "other_members ops (cl_node C i) = Mem - {i}"
proof -
  from assms(1) have "cluster_starts ops Mem C" by (simp add: fresh_cluster_def)
  then have "cluster_ok ops Mem C" by (rule cluster_starts_ok)
  then have ok: "members_ok ops Mem C" by (simp add: cluster_ok_def)
  from members_ok_card [OF this assms(2)]
  show "finite Mem" "length (get_membership ops (nd_state (cl_node C i))) = card Mem" by simp_all
  from ok assms(2) show "other_members ops (cl_node C i) = Mem - {i}"
    by (auto simp: members_ok_def other_members_def member_ids_def)
qed

section \<open>A campaign\<close>

text \<open>
  \<open>j\<close> stands in term \<open>T\<close>, with its election timer ending at \<open>d\<close>, has counted \<open>votes\<close>, its own
  among them, and has its result waiting as soon as they suffice. Its store is the one it started with.
\<close>

definition standing_node :: "u64 \<Rightarrow> 'r raft_channels \<Rightarrow> ('s, 'r) raft_node \<Rightarrow> ('s, 'r) raft_node" where
  "standing_node T ch n =
     n\<lparr>nd_current_state := Candidate, nd_current_term := T, nd_voted_for := Some (nd_id n), nd_channels := ch\<rparr>"

lemma standing_node_sel [simp]:
  "nd_current_state (standing_node T ch n) = Candidate" "nd_current_term (standing_node T ch n) = T"
  "nd_id (standing_node T ch n) = nd_id n" "nd_state (standing_node T ch n) = nd_state n"
  "nd_channels (standing_node T ch n) = ch"
  "nd_election_timeout_range (standing_node T ch n) = nd_election_timeout_range n"
  "(standing_node T ch n)\<lparr>nd_channels := ch'\<rparr> = standing_node T ch' n"
  by (simp_all add: standing_node_def)

definition campaigns ::
    "node_id set \<Rightarrow> ('s, 'r) cluster \<Rightarrow> node_id \<Rightarrow> u64 \<Rightarrow> instant \<Rightarrow> nat \<Rightarrow> ('s, 'r) cluster \<Rightarrow> bool" where
  "campaigns Mem C0 j T d votes C \<longleftrightarrow>
     (\<exists>t ch h. cl_main C j = CandidateSelect t \<and>
        vs_node (ct_session t) = standing_node T ch (cl_node C0 j) \<and>
        ch_receiver (out_rpc ch) = Alive \<and> ch_capacity (out_rpc ch) = None \<and>
        vs_granted_votes (ct_session t) = votes \<and>
        vs_vote_result (ct_session t) = (bounded_channel 1)
          \<lparr>ch_queue := if (card Mem + 1) div 2 < votes then [Granted] else []\<rparr> \<and>
        deadline (ct_election_timeout t) = d \<and>
        to_duration (ct_election_timeout t) =
          Range (fst (nd_election_timeout_range (cl_node C0 j))) (snd (nd_election_timeout_range (cl_node C0 j))) \<and>
        to_duration (ct_retry_timeout t) = Fixed h) \<and>
     cl_session C j = T \<and> (T, j) \<in> set (cl_votes C j) \<and> cl_elected C = {}"

text \<open>The nodes outside \<open>X\<close> have not moved.\<close>

definition untouched :: "('s, 'r) cluster \<Rightarrow> node_id set \<Rightarrow> ('s, 'r) cluster \<Rightarrow> bool" where
  "untouched C0 X C \<longleftrightarrow> (\<forall>i. i \<notin> X \<longrightarrow> cl_main C i = cl_main C0 i)"

lemma campaigns_cong:
  "campaigns Mem C0 j T d votes C \<Longrightarrow> cl_main C' j = cl_main C j \<Longrightarrow> cl_session C' j = cl_session C j \<Longrightarrow>
     cl_votes C' j = cl_votes C j \<Longrightarrow> cl_elected C' = cl_elected C \<Longrightarrow> campaigns Mem C0 j T d votes C'"
  by (simp add: campaigns_def)

lemma term_kept_channels: "term_kept n (n\<lparr>nd_channels := ch\<rparr>)"
  by (simp add: term_kept_def)

lemmas kept_script_run = cluster_script_run [where keep = term_kept, OF term_kept_channels]

section \<open>Standing\<close>

text \<open>A follower that hears nothing stands when its timeout ends at \<open>d\<close>.\<close>

definition stand_turns :: "node_id \<Rightarrow> instant \<Rightarrow> cluster_action list" where
  "stand_turns j d =
     [TurnAt j 0 OnRpc, TurnAt j 0 OnRpc, TurnAt j d OnElectionTimeout, TurnAt j d OnRpc, TurnAt j d OnRpc,
      TurnAt j d OnRpc]"

lemma first_campaign:
  assumes fresh: "fresh_cluster ops Mem C0" and j: "j \<in> Mem" and less: "nd_current_term (cl_node C0 j) < T"
    and T: "T = nd_current_term (cl_node C0 j) + 1"
  shows "\<exists>C d. cluster_run pr ops gen_range term_kept Mem C0 C \<and> campaigns Mem C0 j T d 1 C \<and> untouched C0 {j} C"
proof -
  obtain n lo hi where main: "cl_main C0 j = Dispatching n" "cl_node C0 j = n" and n: "nd_id n = j" "nd_current_state n = Follower"
    "nd_channels n = create_channels" "nd_election_timeout_range n = (lo, hi)" "\<not> hi \<le> lo"
    by (rule fresh_memberE [OF fresh j])
  let ?d = "from_millis (gen_range lo hi)"
  have small: "\<not> Suc (card Mem) div 2 < Suc 0"
    using fresh_members(1) [OF fresh j] j by (cases "card Mem") auto
  have "cl_elected C0 = {}" using fresh by (simp add: fresh_cluster_def cluster_starts_def)
  then have "\<exists>C. cluster_script pr ops gen_range term_kept Mem (stand_turns j ?d) C0 = Some C \<and> campaigns Mem C0 j T (2 * ?d) 1 C \<and> untouched C0 {j} C"
    using main n j less T small order.strict_implies_order [OF less]
    by (cases n) (simp add: stand_turns_def cluster_eval turn_eval Let_def outcome_simps self_vote_def vote_session_initialize_def
       campaigns_def untouched_def standing_node_def create_channels_def unbounded_channel_def bounded_channel_def)
  with kept_script_run show ?thesis by blast
qed

text \<open>A candidate without a result stands again, one term higher.\<close>

definition retry_turns :: "node_id \<Rightarrow> instant \<Rightarrow> cluster_action list" where
  "retry_turns j d = [TurnAt j d OnElectionTimeout, TurnAt j d OnRpc]"

lemma next_campaign:
  assumes fresh: "fresh_cluster ops Mem C0" and j: "j \<in> Mem" and less: "T < T + 1"
    and camp: "campaigns Mem C0 j T d 1 C" "untouched C0 {j} C"
  shows "\<exists>C' d'. cluster_run pr ops gen_range term_kept Mem C C' \<and> campaigns Mem C0 j (T + 1) d' 1 C' \<and> untouched C0 {j} C'"
proof -
  obtain lo hi where n: "nd_id (cl_node C0 j) = j" "nd_election_timeout_range (cl_node C0 j) = (lo, hi)" "\<not> hi \<le> lo"
    by (metis fresh_memberE [OF fresh j])
  have small: "\<not> Suc (card Mem) div 2 < Suc 0"
    using fresh_members(1) [OF fresh j] j by (cases "card Mem") auto
  obtain t ch h where t: "cl_main C j = CandidateSelect t"
        "vs_node (ct_session t) = standing_node T ch (cl_node C0 j)"
        "ch_receiver (out_rpc ch) = Alive" "ch_capacity (out_rpc ch) = None"
        "deadline (ct_election_timeout t) = d"
        "to_duration (ct_election_timeout t) = Range lo hi"
        "to_duration (ct_retry_timeout t) = Fixed h"
     "cl_elected C = {}" "\<forall>i. i \<noteq> j \<longrightarrow> cl_main C i = cl_main C0 i"
    using camp n unfolding campaigns_def untouched_def by auto
  have "\<exists>C'. cluster_script pr ops gen_range term_kept Mem (retry_turns j d) C = Some C' \<and>
      campaigns Mem C0 j (T + 1) (d + from_millis (gen_range lo hi)) 1 C' \<and> untouched C0 {j} C'"
    using t n j order.strict_implies_order [OF less] small
    by (cases "cl_node C0 j") (simp add: retry_turns_def cluster_eval candidate_branch_def timeout_reset_def turn_eval Let_def outcome_simps self_vote_def vote_session_initialize_def
       campaigns_def untouched_def standing_node_def bounded_channel_def)
  with kept_script_run show ?thesis by blast
qed

text \<open>So it can stand in every higher term.\<close>

lemma campaign_at:
  assumes fresh: "fresh_cluster ops Mem C0" and j: "j \<in> Mem" and less: "nd_current_term (cl_node C0 j) < T"
  shows "\<exists>C d. cluster_run pr ops gen_range term_kept Mem C0 C \<and> campaigns Mem C0 j T d 1 C \<and> untouched C0 {j} C"
  using less
proof (induction "unat T" arbitrary: T)
  case 0
  then show ?case by (simp add: word_less_nat_alt)
next
  case (Suc k)
  show ?case
  proof (cases "nd_current_term (cl_node C0 j) = T - 1")
    case True
    then have "T = nd_current_term (cl_node C0 j) + 1" by simp
    from first_campaign [OF fresh j Suc.prems this] show ?thesis .
  next
    case False
    have k: "k = unat (T - 1)" using Suc.hyps(2) by (metis diff_Suc_1 nat.simps(3) unat_0 unat_minus_one)
    with False Suc have "nd_current_term (cl_node C0 j) < T - 1"
      by (metis le_neq_trans less_Suc_eq_le word_le_nat_alt word_less_nat_alt)
    from Suc.hyps(1) [OF k this] obtain C d where run: "cluster_run pr ops gen_range term_kept Mem C0 C"
      and camp: "campaigns Mem C0 j (T - 1) d 1 C" "untouched C0 {j} C" by blast
    have "T - 1 < T - 1 + 1" using k Suc.hyps(2) by (simp add: word_less_nat_alt)
    from next_campaign [OF fresh j this camp] run show ?thesis
      by (metis cluster_run_trans diff_add_cancel)
  qed
qed

section \<open>Voting\<close>

text \<open>A fresh voter waits, and answers the request it is sent.\<close>

definition wait_turns :: "node_id \<Rightarrow> instant \<Rightarrow> cluster_action list" where
  "wait_turns p d = [TurnAt p d OnRpc, TurnAt p d OnRpc]"

lemma waits_run:
  assumes main: "cl_main C p = Dispatching n" "nd_current_state n = Follower" "nd_election_timeout_range n = (lo, hi)" "\<not> hi \<le> lo"
    and p: "p \<in> Mem"
  shows "\<exists>C' t. cluster_script pr ops gen_range term_kept Mem (wait_turns p d) C = Some C' \<and>
     cl_main C' = (cl_main C)(p := FollowerSelect t) \<and> ft_node t = n \<and> to_duration (ft_election_timeout t) = Range lo hi \<and>
     cl_votes C' = cl_votes C \<and> cl_session C' = cl_session C \<and> cl_requests C' = cl_requests C \<and> cl_answers C' = cl_answers C \<and>
     cl_elected C' = cl_elected C"
  using assms
  by (simp add: wait_turns_def cluster_eval turn_eval Let_def outcome_simps fun_eq_iff)

lemma channel_starts: "ch_queue (in_rpc create_channels) = []"
  by (simp add: create_channels_def unbounded_channel_def)

lemma voter_turn:
  assumes answer: "respond_to_request_vote ops req Alive (ft_node t) = (Ok r, n')"
    and queue: "ch_queue (in_rpc (nd_channels (ft_node t))) = []"
    and timer: "to_duration (ft_election_timeout t) = Range lo hi" "\<not> hi \<le> lo"
  defines "M \<equiv> FollowerSelect (t\<lparr>ft_node := deliver (RequestVote req Alive) (ft_node t)\<rparr>)"
  shows "turn_answer ops d OnRpc M = Some (req, r)"
    "main_node (snd (main_turn pr ops gen_range d OnRpc M)) = n'"
proof -
  let ?n = "deliver (RequestVote req Alive) (ft_node t)"
  have "recv_some (on_in_rpc channel_recv) ?n = (Ok (RequestVote req Alive), ft_node t)"
    using queue by (simp add: recv_some_eq_Ok on_in_rpc_eq_Ok channel_recv_Some deliver_def)
  then have rpc: "rpc_branch ops d ?n = (Ok (VoteReply r :: unit reply), n')"
    using answer by (simp add: rpc_branch_def bind_c_def outcome_simps)
  then show "turn_answer ops d OnRpc M = Some (req, r)"
    using queue by (simp add: M_def turn_answer_def rpc_answer_def answer_sent_def deliver_def)
  show "main_node (snd (main_turn pr ops gen_range d OnRpc M)) = n'"
    using rpc timer by (simp add: M_def follower_branch_def on_ft_node_def zoom_c_def reset_election_timeout_def
       timeout_reset_def start_range_def bind_c_def outcome_simps after_branch_def)
qed

text \<open>A granted answer is one vote more, and a result when the votes suffice.\<close>

lemma grant_counted:
  assumes "rvr_vote_granted r" and "rvr_reason r = RvOk" and "vs_vote_result v = bounded_channel 1"
  shows "\<exists>c. on_vote_response ops m r v = (Ok c, v\<lparr>vs_ack_peers := insert (rvr_id r) (vs_ack_peers v),
     vs_granted_votes := vs_granted_votes v + 1,
     vs_vote_result := (bounded_channel 1)\<lparr>ch_queue := if (m + 1) div 2 < 1 + vs_granted_votes v then [Granted] else []\<rparr>\<rparr>)"
  using assms
  by (cases v) (simp add: on_vote_response_def on_vote_result_def channel_send_def channel_full_def bounded_channel_def
      bind_c_def outcome_simps Let_def)

text \<open>The request of the campaign: asked, granted, counted.\<close>

definition vote_asked :: "('s, 'r) state_ops \<Rightarrow> ('s, 'r) cluster \<Rightarrow> node_id \<Rightarrow> u64 \<Rightarrow> request_vote_request" where
  "vote_asked ops C0 j T = (request_vote_request_of ops (cl_node C0 j))\<lparr>rv_term := T\<rparr>"

lemma campaign_asks:
  assumes fresh: "fresh_cluster ops Mem C0" and j: "j \<in> Mem" and p: "p \<in> Mem" "p \<noteq> j"
    and camp: "campaigns Mem C0 j T d votes C" "untouched C0 X C" and X: "j \<in> X"
  shows "\<exists>C'. cluster_run pr ops gen_range term_kept Mem C C' \<and> campaigns Mem C0 j T d votes C' \<and> untouched C0 X C' \<and>
    (p, j, T, vote_asked ops C0 j T) \<in> cl_requests C'"
proof -
  obtain t ch h where t: "cl_main C j = CandidateSelect t"
      "vs_node (ct_session t) = standing_node T ch (cl_node C0 j)"
      "ch_receiver (out_rpc ch) = Alive" "ch_capacity (out_rpc ch) = None"
      and rest: "campaigns Mem C0 j T d votes C"
    using camp(1) unfolding campaigns_def by auto
  let ?n = "standing_node T ch (cl_node C0 j)" and ?req = "vote_asked ops C0 j T"
  let ?ch = "(out_rpc ch)\<lparr>ch_queue := ch_queue (out_rpc ch) @ [(p, RequestVote ?req Alive)]\<rparr>"
  let ?n' = "standing_node T (ch\<lparr>out_rpc := ?ch\<rparr>) (cl_node C0 j)"
  let ?C = "C\<lparr>cl_main := (cl_main C)(j := put_node ?n' (cl_main C j)), cl_requests := insert (p, j, T, ?req) (cl_requests C)\<rparr>"
  have req: "request_vote_request_of ops ?n = ?req"
    by (simp add: vote_asked_def request_vote_request_of_def)
  have node: "cl_node C j = ?n" using t(1,2) by (simp add: cl_node_def ct_node_def)
  have emit: "emit_request_vote ops p ?n = (Ok (), ?n')"
    using t(3,4) by (simp add: emit_request_vote_def req on_out_rpc_run bind_c_def outcome_simps channel_send_def channel_full_def)
  have "p \<in> other_members ops ?n" using fresh_members(3) [OF fresh j] p by (simp add: other_members_def)
  then have "cluster_script pr ops gen_range term_kept Mem [AskFrom j p T] C = Some ?C"
    using camp(1) node emit req j by (simp add: campaigns_def moved_def Let_def)
  then have "cluster_run pr ops gen_range term_kept Mem C ?C" by (rule kept_script_run)
  moreover have "campaigns Mem C0 j T d votes ?C"
    using camp(1) t unfolding campaigns_def by (auto simp: ct_put_node_def)
  moreover have "untouched C0 X ?C" using camp(2) X by (auto simp: untouched_def)
  ultimately show ?thesis by auto
qed

lemma vote_asked_granted:
  assumes store: "total_log ops log_of base" and best: "best_log ops Mem C0 j"
    and p: "p \<in> Mem" and less: "nd_current_term (cl_node C0 p) < T"
  shows "\<exists>r n'. respond_to_request_vote ops (vote_asked ops C0 j T) Alive (cl_node C0 p) = (Ok r, n') \<and>
    rvr_vote_granted r \<and> rvr_reason r = RvOk \<and> nd_current_term n' = T"
proof -
  obtain r n' where run: "respond_to_request_vote ops (vote_asked ops C0 j T) Alive (cl_node C0 p) = (Ok r, n')"
    using total_log.vote_answered [OF store] by blast
  have "log_up_to_date ops (nd_state (cl_node C0 p)) (vote_asked ops C0 j T)"
    using best p by (simp add: log_up_to_date_position best_log_def vote_asked_def)
  with less have granted: "rvr_vote_granted r"
    using total_log.vote_decision [OF store run] by (auto simp: vote_asked_def)
  with run vote_granted_state(1) [OF run granted] vote_reply_reason(1) [OF run] show ?thesis
    by (auto simp: vote_asked_def)
qed

lemma campaign_granted:
  assumes store: "total_log ops log_of base" and fresh: "fresh_cluster ops Mem C0" and best: "best_log ops Mem C0 j"
    and p: "p \<in> Mem" "p \<noteq> j" "p \<notin> X" and less: "nd_current_term (cl_node C0 p) < T"
    and camp: "campaigns Mem C0 j T d votes C" "untouched C0 X C"
    and asked: "(p, j, T, vote_asked ops C0 j T) \<in> cl_requests C"
  shows "\<exists>C' r. cluster_run pr ops gen_range term_kept Mem C C' \<and> campaigns Mem C0 j T d votes C' \<and>
    untouched C0 (insert p X) C' \<and> ((p, j, T, vote_asked ops C0 j T), r) \<in> cl_answers C' \<and>
    rvr_vote_granted r \<and> rvr_reason r = RvOk"
proof -
  let ?req = "vote_asked ops C0 j T"
  obtain n lo hi where n: "cl_main C0 p = Dispatching n" "cl_node C0 p = n" "nd_current_state n = Follower"
    "nd_channels n = create_channels" "nd_election_timeout_range n = (lo, hi)" "\<not> hi \<le> lo"
    by (rule fresh_memberE [OF fresh p(1)])
  have "cl_main C p = Dispatching n" using n p(3) camp(2) by (simp add: untouched_def)
  from waits_run [OF this n(3,5,6) p(1)] obtain C1 t where
    wait: "cluster_script pr ops gen_range term_kept Mem (wait_turns p d) C = Some C1"
    and C1: "cl_main C1 = (cl_main C)(p := FollowerSelect t)" "ft_node t = n" "to_duration (ft_election_timeout t) = Range lo hi"
     "cl_votes C1 = cl_votes C" "cl_session C1 = cl_session C" "cl_requests C1 = cl_requests C" "cl_elected C1 = cl_elected C"
    by blast
  obtain r n' where run: "respond_to_request_vote ops ?req Alive n = (Ok r, n')"
    and granted: "rvr_vote_granted r" "rvr_reason r = RvOk" and at_T: "nd_current_term n' = T"
    using vote_asked_granted [OF store best p(1) less] n(2) by blast
  have cand: "rv_candidate_id ?req = j"
    using fresh_memberE [OF fresh, of j] best
    by (auto simp: best_log_def vote_asked_def request_vote_request_of_def)
  let ?M = "FollowerSelect (t\<lparr>ft_node := deliver (RequestVote ?req Alive) (ft_node t)\<rparr>)"
  obtain vs M' where turn: "main_turn pr ops gen_range d OnRpc ?M = (vs, M')" by force
  have voter: "turn_answer ops d OnRpc ?M = Some (?req, r)" "main_node M' = n'"
    using voter_turn [OF _ _ C1(3) n(6), of ops ?req r n'] run C1(2) n(4) turn
    by (metis channel_starts snd_conv)+
  let ?C3 = "C1\<lparr>cl_main := (cl_main C1)(p := M'), cl_votes := (cl_votes C1)(p := cl_votes C1 p @ vs),
     cl_answers := insert ((p, j, T, ?req), r) (cl_answers C1)\<rparr>"
  have kept: "term_kept (deliver (RequestVote ?req Alive) n) n'"
    using less n(2) at_T by (simp add: term_kept_def deliver_def)
  have "cluster_script pr ops gen_range term_kept Mem [DeliverTo p ?req, AnswerAt p d T] C1 = Some ?C3"
    using C1 p(1) voter turn asked cand kept by (simp add: moved_def Let_def cl_node_def)
  from cluster_run_trans [OF kept_script_run [OF wait] kept_script_run [OF this]]
  have "cluster_run pr ops gen_range term_kept Mem C ?C3" .
  moreover have "campaigns Mem C0 j T d votes ?C3"
    by (rule campaigns_cong [OF camp(1)]) (use p(2) C1 in simp_all)
  moreover have "untouched C0 (insert p X) ?C3" using camp(2) C1 by (auto simp: untouched_def)
  ultimately show ?thesis using granted by (intro exI [of _ ?C3] exI [of _ r]) simp
qed

lemma campaign_counts:
  assumes fresh: "fresh_cluster ops Mem C0" and j: "j \<in> Mem"
    and camp: "campaigns Mem C0 j T d votes C" "untouched C0 X C" and X: "j \<in> X" and few: "votes \<le> (card Mem + 1) div 2"
    and answer: "((p, j, T, req), r) \<in> cl_answers C" and granted: "rvr_vote_granted r" "rvr_reason r = RvOk"
  shows "\<exists>C'. cluster_run pr ops gen_range term_kept Mem C C' \<and> campaigns Mem C0 j T d (votes + 1) C' \<and> untouched C0 X C'"
proof -
  obtain t ch h where t: "cl_main C j = CandidateSelect t"
      "vs_node (ct_session t) = standing_node T ch (cl_node C0 j)"
      "vs_granted_votes (ct_session t) = votes" "vs_vote_result (ct_session t) = bounded_channel 1"
    using camp(1) few unfolding campaigns_def by (auto simp: bounded_channel_def)
  have m: "length (get_membership ops (nd_state (vs_node (ct_session t)))) = card Mem"
    using fresh_members(2) [OF fresh j] t(2) by simp
  obtain c where read: "on_vote_response ops (card Mem) r (ct_session t) =
      (Ok c, (ct_session t)\<lparr>vs_ack_peers := insert (rvr_id r) (vs_ack_peers (ct_session t)), vs_granted_votes := votes + 1,
        vs_vote_result := (bounded_channel 1)\<lparr>ch_queue := if (card Mem + 1) div 2 < 1 + votes then [Granted] else []\<rparr>\<rparr>)"
    using grant_counted [OF granted t(4), where m = "card Mem"] t(3) by auto
  let ?v = "snd (on_vote_response ops (card Mem) r (ct_session t))"
  let ?C = "answer_read (p, j, T, req) r (moved j (CandidateSelect (t\<lparr>ct_session := ?v\<rparr>)) [] C)"
  have same: "term_kept (cl_node C j) (vs_node ?v)"
    using t(1) read by (simp add: term_kept_def cl_node_def ct_node_def)
  have "cl_session C j = T" using camp(1) by (simp add: campaigns_def)
  then have "cluster_script pr ops gen_range term_kept Mem [ReadAt (p, j, T, req) r] C = Some ?C"
    using answer t(1) m same by (simp del: answer_read.simps)
  then have "cluster_run pr ops gen_range term_kept Mem C ?C" by (rule kept_script_run)
  moreover have "campaigns Mem C0 j T d (votes + 1) ?C"
    using camp(1) t read unfolding campaigns_def by (auto simp: moved_def)
  moreover have "untouched C0 X ?C" using camp(2) X by (auto simp: untouched_def)
  ultimately show ?thesis by blast
qed

section \<open>Winning\<close>

text \<open>One voter after the other, until the votes suffice.\<close>

lemma campaign_collects:
  assumes store: "total_log ops log_of base" and fresh: "fresh_cluster ops Mem C0" and best: "best_log ops Mem C0 j"
    and less: "\<forall>i \<in> Mem. nd_current_term (cl_node C0 i) < T"
    and start: "campaigns Mem C0 j T d 1 C" "untouched C0 {j} C" and k: "k \<le> (card Mem + 1) div 2" "k < card Mem"
  shows "\<exists>A C'. A \<subseteq> Mem - {j} \<and> card A = k \<and> cluster_run pr ops gen_range term_kept Mem C C' \<and>
    campaigns Mem C0 j T d (1 + k) C' \<and> untouched C0 (insert j A) C'"
  using k
proof (induction k)
  case 0
  have "cluster_run pr ops gen_range term_kept Mem C C" by (simp add: cluster_run_def)
  with start show ?case by (intro exI [of _ "{}"] exI [of _ C]) simp
next
  case (Suc k)
  then obtain A C1 where A: "A \<subseteq> Mem - {j}" "card A = k" and run: "cluster_run pr ops gen_range term_kept Mem C C1"
    and camp: "campaigns Mem C0 j T d (1 + k) C1" "untouched C0 (insert j A) C1"
    by auto
  have j: "j \<in> Mem" using best by (simp add: best_log_def)
  have fin: "finite Mem" by (rule fresh_members(1) [OF fresh j])
  have "card (Mem - {j}) = card Mem - 1" using fin j by simp
  with A Suc.prems(2) have "A \<noteq> Mem - {j}" by auto
  then obtain p where p: "p \<in> Mem" "p \<noteq> j" "p \<notin> A" using A(1) by blast
  obtain C2 where C2: "cluster_run pr ops gen_range term_kept Mem C1 C2" "campaigns Mem C0 j T d (1 + k) C2"
      "untouched C0 (insert j A) C2" "(p, j, T, vote_asked ops C0 j T) \<in> cl_requests C2"
    using campaign_asks [OF fresh j p(1,2) camp] by blast
  obtain C3 r where C3: "cluster_run pr ops gen_range term_kept Mem C2 C3" "campaigns Mem C0 j T d (1 + k) C3"
      "untouched C0 (insert p (insert j A)) C3" "((p, j, T, vote_asked ops C0 j T), r) \<in> cl_answers C3"
      "rvr_vote_granted r" "rvr_reason r = RvOk"
    using campaign_granted [OF store fresh best p(1,2) _ _ C2(2-4)] p less by blast
  obtain C4 where C4: "cluster_run pr ops gen_range term_kept Mem C3 C4" "campaigns Mem C0 j T d (1 + k + 1) C4"
      "untouched C0 (insert p (insert j A)) C4"
    using campaign_counts [OF fresh j C3(2,3) _ _ C3(4-6)] Suc.prems(1) by auto
  have "finite A" using A(1) fin finite_subset by blast
  then have "card (insert p A) = Suc k" using p(3) A(2) by simp
  moreover have "cluster_run pr ops gen_range term_kept Mem C C4"
    using run C2(1) C3(1) C4(1) cluster_run_trans by blast
  ultimately show ?case
    using A(1) p C4(2,3) by (intro exI [of _ "insert p A"] exI [of _ C4]) (simp add: insert_commute)
qed

text \<open>A candidate whose result waits becomes leader.\<close>

lemma campaign_won:
  assumes j: "j \<in> Mem" and main: "cl_main C j = CandidateSelect t" "ch_queue (vs_vote_result (ct_session t)) = [res]"
    and node: "nd_current_state (ct_node t) = Candidate" "nd_current_term (ct_node t) = T" and "cl_elected C = {}"
  shows "\<exists>C'. cluster_run pr ops gen_range term_kept Mem C C' \<and> cl_elected C' = {(T, j)} \<and>
    nd_current_state (cl_node C' j) = Leader \<and> nd_current_term (cl_node C' j) = T"
proof -
  have "\<exists>C'. cluster_script pr ops gen_range term_kept Mem [TurnAt j now OnVoteResult] C = Some C' \<and> cl_elected C' = {(T, j)} \<and>
    nd_current_state (cl_node C' j) = Leader \<and> nd_current_term (cl_node C' j) = T"
    using assms
    by (cases res) (simp_all add: cluster_eval turn_eval candidate_branch_def recv_some_def on_ct_session_def on_ct_node_def
        on_vs_node_def on_vote_result_def channel_recv_def zoom_c_def outcome_simps Let_def)
  with kept_script_run show ?thesis by blast
qed

text \<open>A candidate without peers has its result from its own task.\<close>

lemma lone_result_waits:
  assumes j: "j \<in> Mem" and alone: "Mem = {j}" and fresh: "fresh_cluster ops Mem C0" and camp: "campaigns Mem C0 j T d 1 C"
  shows "\<exists>C' t. cluster_run pr ops gen_range term_kept Mem C C' \<and> cl_main C' j = CandidateSelect t \<and>
    ch_queue (vs_vote_result (ct_session t)) = [NoPeers] \<and> nd_current_state (ct_node t) = Candidate \<and>
    nd_current_term (ct_node t) = T \<and> cl_elected C' = {}"
proof -
  obtain t ch where t: "cl_main C j = CandidateSelect t" "vs_node (ct_session t) = standing_node T ch (cl_node C0 j)"
      "vs_vote_result (ct_session t) = bounded_channel 1" "cl_elected C = {}"
    using camp alone unfolding campaigns_def by (auto simp: bounded_channel_def)
  let ?v = "(ct_session t)\<lparr>vs_vote_result := (bounded_channel 1)\<lparr>ch_queue := [NoPeers]\<rparr>\<rparr>"
  let ?M = "CandidateSelect (t\<lparr>ct_session := ?v\<rparr>)"
  have "other_members ops (vs_node (ct_session t)) = {}"
    using fresh_members(3) [OF fresh j] t(2) alone by (simp add: other_members_def)
  then have "get_unack_peers ops (ct_session t) = (Ok None, ?v)"
    using t(3) by (simp add: get_unack_peers_def on_vote_result_def zoom_c_def channel_send_def channel_full_def bounded_channel_def
        outcome_simps bind_c_def)
  moreover have "in_vote_session (ct_session t) (\<lambda>w. put_vote_session w (cl_main C j)) (cl_main C j)"
    using t(1) by (simp add: in_vote_session_def)
  ultimately have "node_step pr ops gen_range (cl_main C j) TaskSends (put_vote_session ?v (cl_main C j))"
    by (metis node_step.ask_peers)
  then have "cluster_step pr ops gen_range term_kept Mem C (moved j ?M [] C)"
    using t(1) by (intro cluster_step.other [where l = TaskSends, OF j]) (simp_all add: term_kept_def cl_node_def ct_node_def)
  then have "cluster_run pr ops gen_range term_kept Mem C (moved j ?M [] C)" by (simp add: cluster_run_def r_into_rtranclp)
  with t(2,4) show ?thesis by (intro exI [of _ "moved j ?M [] C"]) (simp add: ct_node_def)
qed

lemma fresh_cluster_can_elect:
  assumes store: "total_log ops log_of base" and fresh: "fresh_cluster ops Mem C0" and some: "Mem \<noteq> {}"
    and less: "\<forall>i \<in> Mem. nd_current_term (cl_node C0 i) < T"
  shows "(\<exists>j. best_log ops Mem C0 j) \<and>
    (\<forall>j. best_log ops Mem C0 j \<longrightarrow>
       (\<exists>C. cluster_run pr ops gen_range term_kept Mem C0 C \<and> cl_elected C = {(T, j)} \<and>
          nd_current_state (cl_node C j) = Leader \<and> nd_current_term (cl_node C j) = T))"
proof (intro conjI allI impI)
  show "\<exists>j. best_log ops Mem C0 j" using best_log_exists fresh_members(1) [OF fresh] some by blast
next
  fix j assume best: "best_log ops Mem C0 j"
  then have j: "j \<in> Mem" by (simp add: best_log_def)
  obtain C d where run: "cluster_run pr ops gen_range term_kept Mem C0 C"
    and camp: "campaigns Mem C0 j T d 1 C" "untouched C0 {j} C"
    using campaign_at [OF fresh j] less j by blast
  have "\<exists>C' t res. cluster_run pr ops gen_range term_kept Mem C C' \<and> cl_main C' j = CandidateSelect t \<and>
    ch_queue (vs_vote_result (ct_session t)) = [res] \<and> nd_current_state (ct_node t) = Candidate \<and>
    nd_current_term (ct_node t) = T \<and> cl_elected C' = {}"
  proof (cases "Mem = {j}")
    case True
    with lone_result_waits [OF j True fresh camp(1)] show ?thesis by blast
  next
    case False
    let ?k = "(card Mem + 1) div 2"
    have "card Mem \<noteq> 1" using False j by (metis card_1_singletonE singletonD)
    moreover have "card Mem \<noteq> 0" using fresh_members(1) [OF fresh j] j by auto
    ultimately have "?k < card Mem" by presburger
    from campaign_collects [OF store fresh best less camp order.refl this] obtain C' where
      "cluster_run pr ops gen_range term_kept Mem C C'" "campaigns Mem C0 j T d (1 + ?k) C'" by blast
    then show ?thesis unfolding campaigns_def by (fastforce simp: ct_node_def)
  qed
  then show "\<exists>C. cluster_run pr ops gen_range term_kept Mem C0 C \<and> cl_elected C = {(T, j)} \<and>
      nd_current_state (cl_node C j) = Leader \<and> nd_current_term (cl_node C j) = T"
    using run campaign_won [OF j] cluster_run_trans by meson
qed

section \<open>Properties\<close>

lemma pair_fresh: "fresh_cluster memory_ops {1, 2} pair_cluster"
  using pair_starts by (simp add: fresh_cluster_def fresh_member_def pair_cluster_def sample_node_def)

text \<open>
  C4. A fresh cluster can elect: for every term above the members' terms, and every member whose log
  no other member's exceeds - one exists - there is a run from the start in which no node's term drops and
  which makes that member the leader of that term, the only one elected. This holds for every size
  of the cluster, one included, for every store that does not fail, whatever the logs, the terms,
  the timeouts drawn and the build profile are. It fails when a vote that suffices is not counted, a
  complete log is refused or a result is not taken up. The run is one of the cluster machine, which
  does not impose the time limits of the sessions' tasks.
\<close>

theorem fresh_cluster_elects:
  assumes store: "total_log ops log_of base" and fresh: "fresh_cluster ops Mem C0" and some: "Mem \<noteq> {}"
    and less: "\<forall>i \<in> Mem. nd_current_term (cl_node C0 i) < T"
  shows "(\<exists>j. best_log ops Mem C0 j) \<and>
    (\<forall>j. best_log ops Mem C0 j \<longrightarrow>
       (\<exists>C. cluster_run pr ops gen_range term_kept Mem C0 C \<and> cl_elected C = {(T, j)} \<and>
          nd_current_state (cl_node C j) = Leader \<and> nd_current_term (cl_node C j) = T))"
  by (rule fresh_cluster_can_elect [OF assms])

theorem fresh_cluster_elects_witness:
  "\<exists>C. cluster_run Checked memory_ops low_end term_kept {1, 2} pair_cluster C \<and> cl_elected C = {(7, 2)} \<and>
     nd_current_state (cl_node C 2) = Leader \<and> nd_current_term (cl_node C 2) = 7"
proof -
  have "best_log memory_ops {1, 2} pair_cluster 2"
    by (simp add: best_log_def pair_cluster_def cl_node_def sample_node_def)
  moreover have "\<forall>i \<in> {1, 2}. nd_current_term (cl_node pair_cluster i) < 7"
    by (simp add: pair_cluster_def cl_node_def sample_node_def pair_state_def sample_state_def)
  ultimately show ?thesis
    using fresh_cluster_elects [OF memory.total_log_axioms pair_fresh] by blast
qed

end
