(* ===== verification/Timely_Runs.thy ===== *)
theory Timely_Runs
  imports Cluster_Elections
begin

text \<open>
  Runs in which nothing is late. The steps of the cluster put no bound on how long a task waits
  for the scheduler; for a run that shows a fault such a delay would be an excuse. In a timely run
  there is one clock, no timer that a main loop waits for is overdue when anything happens, and a
  vote request is sent, and its answer read, before the timers cut the task off that does it.
\<close>

text \<open>The timers the \<open>select!\<close> of a main loop waits for.\<close>

fun timers_of :: "('s, 'r) main_task \<Rightarrow> timeout list" where
  "timers_of (FollowerLoop t) = [ft_election_timeout t]"
| "timers_of (FollowerSelect t) = [ft_election_timeout t]"
| "timers_of (CandidateLoop t) = [ct_election_timeout t, ct_retry_timeout t]"
| "timers_of (CandidateSelect t) = [ct_election_timeout t, ct_retry_timeout t]"
| "timers_of (LeaderLoop t) = [lt_heartbeat_timeout t]"
| "timers_of (LeaderSelect t) = [lt_heartbeat_timeout t]"
| "timers_of _ = []"

definition none_overdue :: "instant \<Rightarrow> node_id set \<Rightarrow> ('s, 'r) cluster \<Rightarrow> bool" where
  "none_overdue now Mem C \<longleftrightarrow> (\<forall>i \<in> Mem. list_all (\<lambda>t. now \<le> deadline t) (timers_of (cl_main C i)))"

text \<open>When the vote task that a candidate spawned last is cut off.\<close>

fun latest_cutoff :: "('s, 'r) main_task \<Rightarrow> instant" where
  "latest_cutoff (CandidateLoop t) = (if ct_vote_tasks t = [] then 0 else last (ct_vote_tasks t))"
| "latest_cutoff (CandidateSelect t) = (if ct_vote_tasks t = [] then 0 else last (ct_vote_tasks t))"
| "latest_cutoff _ = 0"

text \<open>The clock, and the requests sent so far, each with the instant that cuts off the task that waits for the answer.\<close>

record timing =
  tm_now :: instant
  tm_asked :: "(asked \<times> instant) list"

fun action_time :: "timing \<Rightarrow> cluster_action \<Rightarrow> instant" where
  "action_time T (TurnAt i now b) = now"
| "action_time T (AnswerAt i now st) = now"
| "action_time T _ = tm_now T"

fun action_asks ::
    "('s, 'r) state_ops \<Rightarrow> ('s, 'r) cluster \<Rightarrow> cluster_action \<Rightarrow> (asked \<times> instant) list" where
  "action_asks ops C (AskFrom j p st) =
     [((p, j, st, request_vote_request_of ops (cl_node C j)), latest_cutoff (cl_main C j))]"
| "action_asks ops C _ = []"

fun not_cut_off :: "timing \<Rightarrow> ('s, 'r) cluster \<Rightarrow> cluster_action \<Rightarrow> bool" where
  "not_cut_off T C (AskFrom j p st) = (tm_now T \<le> latest_cutoff (cl_main C j))"
| "not_cut_off T C (ReadAt a r) = list_ex (\<lambda>(a', c). a' = a \<and> tm_now T \<le> c) (tm_asked T)"
| "not_cut_off T C _ = True"

fun timely_script ::
    "profile \<Rightarrow> ('s, 'r) state_ops \<Rightarrow> (u64 \<Rightarrow> u64 \<Rightarrow> u64)
       \<Rightarrow> (('s, 'r) raft_node \<Rightarrow> ('s, 'r) raft_node \<Rightarrow> bool) \<Rightarrow> node_id set \<Rightarrow> cluster_action list
       \<Rightarrow> timing \<times> ('s, 'r) cluster \<Rightarrow> (timing \<times> ('s, 'r) cluster) option" where
  "timely_script pr ops gen_range keep Mem [] (T, C) = Some (T, C)"
| "timely_script pr ops gen_range keep Mem (a # as) (T, C) =
     (let now = action_time T a in
      if tm_now T \<le> now \<and> none_overdue now Mem C \<and> not_cut_off T C a \<and> cluster_may pr ops gen_range keep Mem a C
      then timely_script pr ops gen_range keep Mem as
             (\<lparr>tm_now = now, tm_asked = action_asks ops C a @ tm_asked T\<rparr>, cluster_do pr ops gen_range a C)
      else None)"

definition timely_run ::
    "profile \<Rightarrow> ('s, 'r) state_ops \<Rightarrow> (u64 \<Rightarrow> u64 \<Rightarrow> u64)
       \<Rightarrow> (('s, 'r) raft_node \<Rightarrow> ('s, 'r) raft_node \<Rightarrow> bool) \<Rightarrow> node_id set
       \<Rightarrow> ('s, 'r) cluster \<Rightarrow> ('s, 'r) cluster \<Rightarrow> bool" where
  "timely_run pr ops gen_range keep Mem C C' \<longleftrightarrow>
     (\<exists>as T. timely_script pr ops gen_range keep Mem as (\<lparr>tm_now = 0, tm_asked = []\<rparr>, C) = Some (T, C'))"

lemma timely_script_cluster:
  "timely_script pr ops gen_range keep Mem as (T, C) = Some (T', C') \<Longrightarrow>
     cluster_script pr ops gen_range keep Mem as C = Some C'"
  by (induction as arbitrary: T C) (auto simp: Let_def split: if_splits)

lemma timely_run_cluster:
  assumes "timely_run pr ops gen_range keep Mem C C'" and "\<And>n ch. keep n (n\<lparr>nd_channels := ch\<rparr>)"
  shows "cluster_run pr ops gen_range keep Mem C C'"
  using assms(1) cluster_script_run [where keep = keep, OF assms(2)] timely_script_cluster
  unfolding timely_run_def by blast

lemma timely_script_append:
  "timely_script pr ops gen_range keep Mem as X = Some Y \<Longrightarrow> timely_script pr ops gen_range keep Mem bs Y = Some Z \<Longrightarrow>
     timely_script pr ops gen_range keep Mem (as @ bs) X = Some Z"
proof (induction as arbitrary: X)
  case Nil
  then show ?case by (cases X) simp
next
  case (Cons a as)
  then show ?case by (cases X) (auto simp: Let_def split: if_splits)
qed

lemmas timely_eval =
  timely_script.simps action_time.simps action_asks.simps not_cut_off.simps none_overdue_def timers_of.simps
  latest_cutoff.simps

end
