(* ===== verification/Split_Vote.thy ===== *)
theory Split_Vote
  imports Timely_Runs
begin

text \<open>
  What the condition on the terms is for in \<open>cluster_election_safety\<close>: a timely run of a cluster of
  four, with every timer at the low end of its range, in which a \<open>StaleTerm\<close> answer lowers the term
  of two voters that have meanwhile voted in a higher one. They vote in it again, and both
  candidates lead the same term.

  The run is evaluated in stages. Each names what the next one needs of the cluster it ends in.
\<close>

section \<open>The script\<close>

definition quad_state :: "nat memory_state" where
  "quad_state = (sample_state 1 [])\<lparr>ms_membership := map (\<lambda>i. (i, SocketAddr 0 0)) [1, 2, 3, 4]\<rparr>"

definition quad_cluster :: "(nat memory_state, nat) cluster" where
  "quad_cluster =
     \<lparr>cl_main = (\<lambda>i. Dispatching (sample_node i quad_state)), cl_votes = (\<lambda>_. []), cl_session = (\<lambda>_. 0),
      cl_counted = (\<lambda>_. {}), cl_requests = {}, cl_answers = {}, cl_elected = {}\<rparr>"

abbreviation quad_script ::
    "cluster_action list \<Rightarrow> timing \<times> (nat memory_state, nat) cluster \<Rightarrow> (timing \<times> (nat memory_state, nat) cluster) option" where
  "quad_script \<equiv> timely_script Checked memory_ops low_end any_step {1, 2, 3, 4}"

text \<open>Millisecond \<open>k\<close> of the clock, and the turns a node takes from there.\<close>

definition at_ms :: "nat \<Rightarrow> instant" where
  "at_ms k = k * 1000000"

definition starts_at :: "nat \<Rightarrow> node_id \<Rightarrow> cluster_action list" where
  "starts_at k i = [TurnAt i (at_ms k) OnRpc, TurnAt i (at_ms k) OnRpc]"

definition stands_at :: "nat \<Rightarrow> node_id \<Rightarrow> cluster_action list" where
  "stands_at k i = [TurnAt i (at_ms k) OnElectionTimeout, TurnAt i (at_ms k) OnRpc, TurnAt i (at_ms k) OnRpc,
     TurnAt i (at_ms k) OnRpc]"

text \<open>A candidate's retry timer, and its election timer, which opens the next session.\<close>

definition asks_again_at :: "nat \<Rightarrow> node_id \<Rightarrow> cluster_action list" where
  "asks_again_at k i = [TurnAt i (at_ms k) OnRetryTimeout, TurnAt i (at_ms k) OnRpc]"

definition retries_at :: "nat \<Rightarrow> node_id \<Rightarrow> cluster_action list" where
  "retries_at k i = [TurnAt i (at_ms k) OnElectionTimeout, TurnAt i (at_ms k) OnRpc]"

definition waits_at :: "nat \<Rightarrow> node_id \<Rightarrow> cluster_action list" where
  "waits_at k i = [TurnAt i (at_ms k) OnRpc, TurnAt i (at_ms k) OnRpc, TurnAt i (at_ms k) OnRpc]"

definition quad_request :: "u64 \<Rightarrow> node_id \<Rightarrow> request_vote_request" where
  "quad_request t c = \<lparr>rv_term = t, rv_candidate_id = c, rv_last_log_index = 0, rv_last_log_term = 0\<rparr>"

definition quad_answer :: "node_id \<Rightarrow> u64 \<Rightarrow> request_vote_response_reason \<Rightarrow> request_vote_response" where
  "quad_answer i t reason = \<lparr>rvr_term = t, rvr_vote_granted = (reason = RvOk), rvr_id = i, rvr_reason = reason\<rparr>"

definition asks_at :: "nat \<Rightarrow> u64 \<Rightarrow> node_id \<Rightarrow> node_id \<Rightarrow> cluster_action list" where
  "asks_at k t c p = [AskFrom c p t, DeliverTo p (quad_request t c), AnswerAt p (at_ms k) t]"

text \<open>1 and 2 stand in term 2 and reach term 3; 3 and 4, which start later, stand in term 2.\<close>

definition two_stand :: "cluster_action list" where
  "two_stand =
     starts_at 0 1 @ starts_at 20 2 @ stands_at 150 1 @ stands_at 170 2 @
     asks_again_at 200 1 @ asks_again_at 220 2 @ asks_again_at 250 1 @ asks_again_at 270 2 @
     starts_at 290 3 @ starts_at 290 4 @ retries_at 300 1 @ retries_at 320 2"

definition all_stand :: "cluster_action list" where
  "all_stand =
     asks_again_at 350 1 @ asks_again_at 370 2 @ asks_again_at 400 1 @ asks_again_at 420 2 @
     stands_at 440 3 @ stands_at 440 4"

text \<open>3 and 4 ask 2, which answers both that their term is stale.\<close>

definition stale_answers :: "cluster_action list" where
  "stale_answers =
     asks_at 440 2 3 2 @ [TurnAt 2 (at_ms 440) OnRpc] @ asks_at 440 2 4 2 @ [TurnAt 2 (at_ms 440) OnRpc]"

text \<open>Before those answers arrive 1 goes on to term 4, and 3 and 4 vote for it.\<close>

definition first_grants :: "cluster_action list" where
  "first_grants = retries_at 450 1 @ asks_at 450 4 1 3 @ asks_at 450 4 1 4"

text \<open>The answers arrive: 3 and 4 go back to term 3, and wait as followers.\<close>

definition terms_drop :: "cluster_action list" where
  "terms_drop =
     [ReadAt (2, 3, 2, quad_request 2 3) (quad_answer 2 3 RvStaleTerm)] @ waits_at 460 3 @
     [ReadAt (2, 4, 2, quad_request 2 4) (quad_answer 2 3 RvStaleTerm)] @ waits_at 460 4"

text \<open>2 goes on to term 4 as well, and 3 and 4 vote for it in the same term.\<close>

definition second_grants :: "cluster_action list" where
  "second_grants = retries_at 470 2 @ asks_at 470 4 2 3 @ asks_at 470 4 2 4"

text \<open>Both count their votes.\<close>

definition wins_at :: "nat \<Rightarrow> u64 \<Rightarrow> node_id \<Rightarrow> cluster_action list" where
  "wins_at k t c =
     [ReadAt (3, c, 4, quad_request 4 c) (quad_answer 3 t RvOk), ReadAt (4, c, 4, quad_request 4 c) (quad_answer 4 t RvOk),
      TurnAt c (at_ms k) OnVoteResult]"

lemmas quad_scripts =
  quad_cluster_def quad_state_def at_ms_def starts_at_def stands_at_def asks_again_at_def retries_at_def waits_at_def quad_request_def quad_answer_def
  asks_at_def two_stand_def all_stand_def stale_answers_def first_grants_def terms_drop_def second_grants_def wins_at_def

lemma quad_starts: "cluster_starts memory_ops {1, 2, 3, 4} quad_cluster"
  by (auto simp: cluster_starts_def quad_cluster_def cl_node_def sample_node_def quad_state_def
      member_ids_def is_hashmap_def memory_defs)

section \<open>The stages\<close>

text \<open>A node that has sent the vote requests \<open>qs\<close>; a candidate and a follower of the sample run.\<close>

definition quad_node :: "node_id \<Rightarrow> u64 \<Rightarrow> node_id \<Rightarrow> (node_id \<times> request_vote_request) list
    \<Rightarrow> (nat memory_state, nat) raft_node" where
  "quad_node i t v qs = (sample_node i quad_state)
     \<lparr>nd_current_term := t, nd_voted_for := Some v,
      nd_channels := create_channels\<lparr>out_rpc := unbounded_channel
        \<lparr>ch_queue := map (\<lambda>(p, req). (p, RequestVote req Alive)) qs\<rparr>\<rparr>\<rparr>"

definition quad_timer :: "nat \<Rightarrow> timeout" where
  "quad_timer k = \<lparr>to_duration = Range 150 300, to_start = at_ms k, to_current_interval = at_ms 150\<rparr>"

definition quad_candidate :: "node_id \<Rightarrow> u64 \<Rightarrow> nat \<Rightarrow> nat \<Rightarrow> nat list \<Rightarrow> (node_id \<times> request_vote_request) list
    \<Rightarrow> (nat memory_state, nat) main_task" where
  "quad_candidate i t k l tasks qs = CandidateSelect
     \<lparr>ct_session = \<lparr>vs_ack_peers = {}, vs_node = (quad_node i t i qs)\<lparr>nd_current_state := Candidate\<rparr>,
        vs_vote_result = bounded_channel 1, vs_granted_votes = 1\<rparr>,
      ct_election_timeout = quad_timer k,
      ct_retry_timeout = \<lparr>to_duration = Fixed 50, to_start = at_ms l, to_current_interval = at_ms 50\<rparr>,
      ct_vote_tasks = map at_ms tasks\<rparr>"

definition quad_follower :: "node_id \<Rightarrow> u64 \<Rightarrow> node_id \<Rightarrow> nat \<Rightarrow> (node_id \<times> request_vote_request) list
    \<Rightarrow> (nat memory_state, nat) main_task" where
  "quad_follower i t v k qs = FollowerSelect
     \<lparr>ft_node = (quad_node i t v qs)\<lparr>nd_state := quad_state\<lparr>ms_current_term := t, ms_voted_for := Some v\<rparr>\<rparr>,
      ft_election_timeout = quad_timer k\<rparr>"

lemmas quad_tasks = quad_node_def quad_timer_def quad_candidate_def quad_follower_def

definition quad_asked :: "node_id \<Rightarrow> node_id \<Rightarrow> u64 \<Rightarrow> nat \<Rightarrow> asked \<times> instant" where
  "quad_asked p c t k = ((p, c, t, quad_request t c), at_ms k)"

lemmas quad_turns =
  quad_scripts cluster_eval timely_eval any_step_def turn_defs handler_defs update_current_term_def outcome_simps self_vote_def
  Let_def pair_defs timeout_reset_def quad_asked_def

lemma stage_stand:
  "\<exists>T C. quad_script (two_stand @ all_stand @ stale_answers) (\<lparr>tm_now = 0, tm_asked = []\<rparr>, quad_cluster) = Some (T, C) \<and>
     tm_now T = at_ms 440 \<and>
     tm_asked T = [quad_asked 2 4 2 490, quad_asked 2 3 2 490] \<and>
     cl_main C 1 = quad_candidate 1 3 300 400 [200, 250, 300, 350, 400, 450] [] \<and>
     cl_main C 2 = quad_candidate 2 3 320 420 [220, 270, 320, 370, 420, 470] [] \<and>
     cl_main C 3 = quad_candidate 3 2 440 440 [490] [(2, quad_request 2 3)] \<and>
     cl_main C 4 = quad_candidate 4 2 440 440 [490] [(2, quad_request 2 4)] \<and>
     cl_session C 3 = 2 \<and> cl_session C 4 = 2 \<and> cl_elected C = {} \<and>
     {((2, 3, 2, quad_request 2 3), quad_answer 2 3 RvStaleTerm), ((2, 4, 2, quad_request 2 4), quad_answer 2 3 RvStaleTerm)}
       \<subseteq> cl_answers C"
  by (simp add: quad_turns quad_tasks)

lemma stage_drop:
  assumes "tm_now T = at_ms 440"
    and "tm_asked T = [quad_asked 2 4 2 490, quad_asked 2 3 2 490]"
    and "cl_main C 1 = quad_candidate 1 3 300 400 [200, 250, 300, 350, 400, 450] []"
    and "cl_main C 2 = quad_candidate 2 3 320 420 [220, 270, 320, 370, 420, 470] []"
    and "cl_main C 3 = quad_candidate 3 2 440 440 [490] [(2, quad_request 2 3)]"
    and "cl_main C 4 = quad_candidate 4 2 440 440 [490] [(2, quad_request 2 4)]"
    and "cl_session C 3 = 2" and "cl_session C 4 = 2"
    and "((2, 3, 2, quad_request 2 3), quad_answer 2 3 RvStaleTerm) \<in> cl_answers C"
    and "((2, 4, 2, quad_request 2 4), quad_answer 2 3 RvStaleTerm) \<in> cl_answers C"
  shows "\<exists>T' C'. quad_script (first_grants @ terms_drop) (T, C) = Some (T', C') \<and> tm_now T' = at_ms 460 \<and>
     tm_asked T' = [quad_asked 4 1 4 500, quad_asked 3 1 4 500, quad_asked 2 4 2 490, quad_asked 2 3 2 490] \<and>
     cl_main C' 1 = quad_candidate 1 4 450 450 [200, 250, 300, 350, 400, 450, 500] [(3, quad_request 4 1), (4, quad_request 4 1)] \<and>
     cl_main C' 2 = cl_main C 2 \<and>
     cl_main C' 3 = quad_follower 3 3 1 460 [(2, quad_request 2 3)] \<and>
     cl_main C' 4 = quad_follower 4 3 1 460 [(2, quad_request 2 4)] \<and>
     cl_session C' 1 = 4 \<and> cl_elected C' = cl_elected C \<and>
     ((3, 1, 4, quad_request 4 1), quad_answer 3 2 RvOk) \<in> cl_answers C' \<and>
     ((4, 1, 4, quad_request 4 1), quad_answer 4 2 RvOk) \<in> cl_answers C'"
  using assms by (simp add: quad_turns quad_tasks)

lemma stage_again:
  assumes "tm_now T = at_ms 460"
    and "tm_asked T = [quad_asked 4 1 4 500, quad_asked 3 1 4 500, quad_asked 2 4 2 490, quad_asked 2 3 2 490]"
    and "cl_main C 1 = quad_candidate 1 4 450 450 [200, 250, 300, 350, 400, 450, 500] [(3, quad_request 4 1), (4, quad_request 4 1)]"
    and "cl_main C 2 = quad_candidate 2 3 320 420 [220, 270, 320, 370, 420, 470] []"
    and "cl_main C 3 = quad_follower 3 3 1 460 [(2, quad_request 2 3)]"
    and "cl_main C 4 = quad_follower 4 3 1 460 [(2, quad_request 2 4)]"
    and "((3, 1, 4, quad_request 4 1), quad_answer 3 2 RvOk) \<in> cl_answers C"
    and "((4, 1, 4, quad_request 4 1), quad_answer 4 2 RvOk) \<in> cl_answers C"
  shows "\<exists>T' C'. quad_script second_grants (T, C) = Some (T', C') \<and> tm_now T' = at_ms 470 \<and>
     tm_asked T' = [quad_asked 4 2 4 520, quad_asked 3 2 4 520, quad_asked 4 1 4 500, quad_asked 3 1 4 500, quad_asked 2 4 2 490, quad_asked 2 3 2 490] \<and>
     cl_main C' 1 = cl_main C 1 \<and> cl_session C' 1 = cl_session C 1 \<and>
     cl_main C' 2 = quad_candidate 2 4 470 470 [220, 270, 320, 370, 420, 470, 520] [(3, quad_request 4 2), (4, quad_request 4 2)] \<and>
     timers_of (cl_main C' 3) = [quad_timer 470] \<and>
     timers_of (cl_main C' 4) = [quad_timer 470] \<and>
     cl_session C' 2 = 4 \<and> cl_elected C' = cl_elected C \<and>
     {((3, 1, 4, quad_request 4 1), quad_answer 3 2 RvOk), ((4, 1, 4, quad_request 4 1), quad_answer 4 2 RvOk),
      ((3, 2, 4, quad_request 4 2), quad_answer 3 3 RvOk), ((4, 2, 4, quad_request 4 2), quad_answer 4 3 RvOk)}
       \<subseteq> cl_answers C'"
  using assms by (simp add: quad_turns quad_tasks)

lemma stage_wins:
  assumes "tm_now T = at_ms 470"
    and "tm_asked T = [quad_asked 4 2 4 520, quad_asked 3 2 4 520, quad_asked 4 1 4 500, quad_asked 3 1 4 500, quad_asked 2 4 2 490, quad_asked 2 3 2 490]"
    and "cl_main C 1 = quad_candidate 1 4 450 450 [200, 250, 300, 350, 400, 450, 500] [(3, quad_request 4 1), (4, quad_request 4 1)]"
    and "cl_main C 2 = quad_candidate 2 4 470 470 [220, 270, 320, 370, 420, 470, 520] [(3, quad_request 4 2), (4, quad_request 4 2)]"
    and "timers_of (cl_main C 3) = [quad_timer 470]"
    and "timers_of (cl_main C 4) = [quad_timer 470]"
    and "cl_session C 1 = 4" and "cl_session C 2 = 4" and "cl_elected C = {}"
    and "{((3, 1, 4, quad_request 4 1), quad_answer 3 2 RvOk), ((4, 1, 4, quad_request 4 1), quad_answer 4 2 RvOk),
      ((3, 2, 4, quad_request 4 2), quad_answer 3 3 RvOk), ((4, 2, 4, quad_request 4 2), quad_answer 4 3 RvOk)}
       \<subseteq> cl_answers C"
  shows "\<exists>T' C'. quad_script (wins_at 480 2 1 @ wins_at 480 3 2) (T, C) = Some (T', C') \<and>
     cl_elected C' = {(4, 1), (4, 2)} \<and>
     nd_current_state (cl_node C' 1) = Leader \<and> nd_current_term (cl_node C' 1) = 4 \<and>
     nd_current_state (cl_node C' 2) = Leader \<and> nd_current_term (cl_node C' 2) = 4"
  using assms by (simp add: quad_turns quad_tasks insert_commute)

section \<open>Two leaders\<close>

text \<open>
  C2. Two leaders in one term: without the condition that no term drops, election safety fails. From
  a fresh start of a cluster of four there is a timely run - no failed store, no message lost,
  forged or read twice, one clock that no timer is behind, every answer read before the task that
  asked is cut off - that makes nodes 1 and 2 leaders of term 4, and leaves both in that state. Two
  of the voters voted for both: a \<open>StaleTerm\<close> answer to a vote request of their own takes them from
  term 4, in which they have voted, back to 3.
\<close>

theorem two_leaders_in_one_term:
  "cluster_starts memory_ops {1, 2, 3, 4} quad_cluster \<and>
   (\<exists>C. timely_run Checked memory_ops low_end any_step {1, 2, 3, 4} quad_cluster C \<and>
      cl_elected C = {(4, 1), (4, 2)} \<and>
      nd_current_state (cl_node C 1) = Leader \<and> nd_current_term (cl_node C 1) = 4 \<and>
      nd_current_state (cl_node C 2) = Leader \<and> nd_current_term (cl_node C 2) = 4)"
proof -
  obtain T1 C1 where C1: "quad_script (two_stand @ all_stand @ stale_answers) (\<lparr>tm_now = 0, tm_asked = []\<rparr>, quad_cluster) = Some (T1, C1)"
      "tm_now T1 = at_ms 440" "tm_asked T1 = [quad_asked 2 4 2 490, quad_asked 2 3 2 490]"
      "cl_main C1 1 = quad_candidate 1 3 300 400 [200, 250, 300, 350, 400, 450] []"
      "cl_main C1 2 = quad_candidate 2 3 320 420 [220, 270, 320, 370, 420, 470] []"
      "cl_main C1 3 = quad_candidate 3 2 440 440 [490] [(2, quad_request 2 3)]"
      "cl_main C1 4 = quad_candidate 4 2 440 440 [490] [(2, quad_request 2 4)]"
      "cl_session C1 3 = 2" "cl_session C1 4 = 2" "cl_elected C1 = {}"
      "((2, 3, 2, quad_request 2 3), quad_answer 2 3 RvStaleTerm) \<in> cl_answers C1"
      "((2, 4, 2, quad_request 2 4), quad_answer 2 3 RvStaleTerm) \<in> cl_answers C1"
    using stage_stand by blast
  obtain T2 C2 where C2: "quad_script (first_grants @ terms_drop) (T1, C1) = Some (T2, C2)"
      "tm_now T2 = at_ms 460" "tm_asked T2 = [quad_asked 4 1 4 500, quad_asked 3 1 4 500, quad_asked 2 4 2 490, quad_asked 2 3 2 490]"
      "cl_main C2 1 = quad_candidate 1 4 450 450 [200, 250, 300, 350, 400, 450, 500] [(3, quad_request 4 1), (4, quad_request 4 1)]"
      "cl_main C2 2 = cl_main C1 2" "cl_main C2 3 = quad_follower 3 3 1 460 [(2, quad_request 2 3)]"
      "cl_main C2 4 = quad_follower 4 3 1 460 [(2, quad_request 2 4)]"
      "cl_session C2 1 = 4" "cl_elected C2 = cl_elected C1"
      "((3, 1, 4, quad_request 4 1), quad_answer 3 2 RvOk) \<in> cl_answers C2"
      "((4, 1, 4, quad_request 4 1), quad_answer 4 2 RvOk) \<in> cl_answers C2"
    using stage_drop [OF C1(2-9,11,12)] by blast
  obtain T3 C3 where C3: "quad_script second_grants (T2, C2) = Some (T3, C3)" "tm_now T3 = at_ms 470"
      "tm_asked T3 = [quad_asked 4 2 4 520, quad_asked 3 2 4 520, quad_asked 4 1 4 500, quad_asked 3 1 4 500, quad_asked 2 4 2 490, quad_asked 2 3 2 490]"
      "cl_main C3 1 = cl_main C2 1" "cl_session C3 1 = cl_session C2 1"
      "cl_main C3 2 = quad_candidate 2 4 470 470 [220, 270, 320, 370, 420, 470, 520] [(3, quad_request 4 2), (4, quad_request 4 2)]"
      "timers_of (cl_main C3 3) = [quad_timer 470]" "timers_of (cl_main C3 4) = [quad_timer 470]"
      "cl_session C3 2 = 4" "cl_elected C3 = cl_elected C2"
      "{((3, 1, 4, quad_request 4 1), quad_answer 3 2 RvOk), ((4, 1, 4, quad_request 4 1), quad_answer 4 2 RvOk),
        ((3, 2, 4, quad_request 4 2), quad_answer 3 3 RvOk), ((4, 2, 4, quad_request 4 2), quad_answer 4 3 RvOk)}
         \<subseteq> cl_answers C3"
    using stage_again [OF C2(2-4) C2(5) [unfolded C1(5)] C2(6,7,10,11)] by blast
  obtain T4 C where C: "quad_script (wins_at 480 2 1 @ wins_at 480 3 2) (T3, C3) = Some (T4, C)"
    and led: "cl_elected C = {(4, 1), (4, 2)}"
      "nd_current_state (cl_node C 1) = Leader" "nd_current_term (cl_node C 1) = 4"
      "nd_current_state (cl_node C 2) = Leader" "nd_current_term (cl_node C 2) = 4"
    using stage_wins [OF C3(2,3) C3(4) [unfolded C2(4)] C3(6-8) C3(5) [unfolded C2(8)] C3(9) C3(10) [unfolded C2(9) C1(10)] C3(11)]
    by blast
  have "timely_run Checked memory_ops low_end any_step {1, 2, 3, 4} quad_cluster C"
    unfolding timely_run_def
    using timely_script_append [OF C1(1) timely_script_append [OF C2(1) timely_script_append [OF C3(1) C]]] by blast
  with led quad_starts show ?thesis by blast
qed
end
