(* ===== verification/Stale_Result.thy ===== *)
theory Stale_Result
  imports Split_Vote
begin

text \<open>
  A result that comes late. A candidate's main loop takes up whatever result its session announced;
  that the node still stands is tested only at the start of a turn, before the \<open>select!\<close>. In between
  the session's tasks go on, and one of them may make the node step down. The run is on the cluster
  of theory Split_Vote, is timely, and drops no term.
\<close>

text \<open>2 is ahead by one session when 1 stands in term 2; 3 and 4 start later.\<close>

definition stale_stand :: "cluster_action list" where
  "stale_stand =
     starts_at 0 2 @ starts_at 100 1 @ stands_at 150 2 @ asks_again_at 200 2 @ starts_at 240 3 @ starts_at 240 4 @
     stands_at 250 1 @ asks_again_at 250 2"

text \<open>3 and 4 grant 1 its term 2, which is enough: its first task announces the result.\<close>

definition stale_grants :: "cluster_action list" where
  "stale_grants =
     [AskFrom 1 3 2, AskFrom 1 4 2, DeliverTo 3 (quad_request 2 1), DeliverTo 4 (quad_request 2 1),
      AnswerAt 3 (at_ms 299) 2, AnswerAt 4 (at_ms 299) 2, TurnAt 3 (at_ms 299) OnRpc, TurnAt 4 (at_ms 299) OnRpc,
      ReadAt (3, 1, 2, quad_request 2 1) (quad_answer 3 1 RvOk), ReadAt (4, 1, 2, quad_request 2 1) (quad_answer 4 1 RvOk)]"

text \<open>
  At once 1's retry timer fires and its next task asks 2, which has gone on to term 3. The answer
  makes 1 a follower of term 3.
\<close>

definition stale_refusal :: "cluster_action list" where
  "stale_refusal =
     retries_at 300 2 @ asks_again_at 300 1 @ asks_at 300 2 1 2 @ [TurnAt 2 (at_ms 300) OnRpc] @
     [ReadAt (2, 1, 2, quad_request 2 1) (quad_answer 2 3 RvStaleTerm)]"

text \<open>A candidate takes up its result and starts the role of leader.\<close>

definition leads_at :: "nat \<Rightarrow> node_id \<Rightarrow> cluster_action list" where
  "leads_at k i = [TurnAt i (at_ms k) OnVoteResult, TurnAt i (at_ms k) OnRpc, TurnAt i (at_ms k) OnRpc]"

text \<open>1 takes up the result of term 2; 3 and 4 elect 2 in term 3.\<close>

definition stale_elected :: "cluster_action list" where
  "stale_elected =
     leads_at 301 1 @ asks_at 301 3 2 3 @ asks_at 301 3 2 4 @
     [ReadAt (3, 2, 3, quad_request 3 2) (quad_answer 3 2 RvOk), ReadAt (4, 2, 3, quad_request 3 2) (quad_answer 4 2 RvOk)] @
     leads_at 302 2"

abbreviation stale_script ::
    "cluster_action list \<Rightarrow> timing \<times> (nat memory_state, nat) cluster \<Rightarrow> (timing \<times> (nat memory_state, nat) cluster) option" where
  "stale_script \<equiv> timely_script Checked memory_ops low_end term_kept {1, 2, 3, 4}"

lemmas stale_scripts = stale_stand_def stale_grants_def stale_refusal_def leads_at_def stale_elected_def

lemma stale_result_run:
  "\<exists>T C. stale_script (stale_stand @ stale_grants @ stale_refusal @ stale_elected) (\<lparr>tm_now = 0, tm_asked = []\<rparr>, quad_cluster)
        = Some (T, C) \<and>
     cl_elected C = {(3, 2)} \<and> (\<forall>v \<in> {1, 2, 3, 4}. (3, 1) \<notin> set (cl_votes C v)) \<and>
     (\<forall>i \<in> {1, 2}. nd_current_state (cl_node C i) = Leader \<and> nd_current_term (cl_node C i) = 3 \<and>
        replication_session_of (cl_main C i) \<noteq> None)"
  by (simp add: stale_scripts quad_turns quad_tasks leader_start_def replication_session_initialize_def u64_add_def
      spawn_heartbeats_def leader_enter_def lt_node_def)
text \<open>
  C3. A leader nobody voted for: from a fresh start of a cluster of four there is a timely run, in
  which no term drops, no store fails and no message is lost or forged, that leaves nodes 1 and 2
  both running the role of leader in term 3, although 2 was elected in it and no member voted for 1.
  Node 1 won term 2, stepped down to a follower of term 3, and only then took up its result.
\<close>

theorem stale_result_makes_leader:
  "cluster_starts memory_ops {1, 2, 3, 4} quad_cluster \<and>
   (\<exists>C. timely_run Checked memory_ops low_end term_kept {1, 2, 3, 4} quad_cluster C \<and>
      cl_elected C = {(3, 2)} \<and>
      (3, 1) \<notin> set (cl_votes C 1 @ cl_votes C 2 @ cl_votes C 3 @ cl_votes C 4) \<and>
      nd_current_state (cl_node C 1) = Leader \<and> nd_current_term (cl_node C 1) = 3 \<and>
      replication_session_of (cl_main C 1) \<noteq> None \<and>
      nd_current_state (cl_node C 2) = Leader \<and> nd_current_term (cl_node C 2) = 3 \<and>
      replication_session_of (cl_main C 2) \<noteq> None)"
proof -
  obtain T C where
    "stale_script (stale_stand @ stale_grants @ stale_refusal @ stale_elected) (\<lparr>tm_now = 0, tm_asked = []\<rparr>, quad_cluster)
       = Some (T, C)"
    and end_: "cl_elected C = {(3, 2)}" "\<forall>v \<in> {1, 2, 3, 4}. (3, 1) \<notin> set (cl_votes C v)"
      "\<forall>i \<in> {1, 2}. nd_current_state (cl_node C i) = Leader \<and> nd_current_term (cl_node C i) = 3 \<and>
         replication_session_of (cl_main C i) \<noteq> None"
    using stale_result_run by blast
  then have "timely_run Checked memory_ops low_end term_kept {1, 2, 3, 4} quad_cluster C"
    unfolding timely_run_def by blast
  with end_ quad_starts show ?thesis by (intro conjI exI [of _ C]) simp_all
qed

end
