(* ===== verification/Logs.thy ===== *)
theory Logs
  imports Elections
begin

text \<open>
  The properties of the replicated log: what an \<open>AppendEntries\<close> message does to the log and the
  commit index of the node that receives it, what the messages a leader composes do to its
  followers, and what the leader's own session finds stale and sends.

  Where the meaning of an index matters the property names the contract it holds under:
  \<open>base = 1\<close> is the indexing the comments of the trait \<open>State\<close> describe, \<open>base = 0\<close> the one
  \<open>MemoryState\<close> has.
\<close>

section \<open>Receiving entries\<close>

lemma append_exact:
  assumes store: "total_log ops log_of base"
  shows "\<exists>r n'. respond_to_append_entries ops now req Alive n = (Ok r, n') \<and>
    (aer_success r \<longleftrightarrow> accepts_append base (log_of (nd_state n)) n req) \<and>
    log_of (nd_state n') =
      (if aer_success r then take (unat (ae_prev_log_index req)) (log_of (nd_state n)) @ ae_entries req
       else log_of (nd_state n)) \<and>
    get_last_commit_index ops (nd_state n') =
      (if aer_success r then min (ae_last_commit_index req) (last_log_index (log_of (nd_state n')))
       else get_last_commit_index ops (nd_state n))"
proof -
  note log = total_log.axioms(1) [OF store]
  obtain r n' where run: "respond_to_append_entries ops now req Alive n = (Ok r, n')"
    using total_log.append_answered [OF store] by blast
  with raft_log.append_accepted_iff [OF log run] raft_log.append_success [OF log run]
    raft_log.append_failure [OF log run]
  show ?thesis by auto
qed

text \<open>
  C18. With a store that does not fail a listening leader always gets an answer. A request is
  accepted exactly when its term is not stale, the follower's log reaches the previous index and
  no entry there has another term. Then the log is its prefix up to the previous index followed
  by the sent entries, and the commit index the smaller of the leader's and the log's end; a
  refused request leaves both as they were.
\<close>

theorem append_entries_exact:
  assumes store: "total_log ops log_of base"
  shows "\<exists>r n'. respond_to_append_entries ops now req Alive n = (Ok r, n') \<and>
    (aer_success r \<longleftrightarrow> accepts_append base (log_of (nd_state n)) n req) \<and>
    log_of (nd_state n') =
      (if aer_success r then take (unat (ae_prev_log_index req)) (log_of (nd_state n)) @ ae_entries req
       else log_of (nd_state n)) \<and>
    get_last_commit_index ops (nd_state n') =
      (if aer_success r then min (ae_last_commit_index req) (last_log_index (log_of (nd_state n')))
       else get_last_commit_index ops (nd_state n))"
  by (rule append_exact [OF store])

definition sample_append :: "u64 \<Rightarrow> u64 \<Rightarrow> nat log_entry list \<Rightarrow> nat append_entries_request" where
  "sample_append prev prev_term es =
     \<lparr>ae_term = 2, ae_leader_id = 1, ae_last_commit_index = 1, ae_prev_log_index = prev,
      ae_prev_log_term = prev_term, ae_entries = es\<rparr>"

definition sample_follower :: "(nat memory_state, nat) raft_node" where
  "sample_follower = sample_node 2 (sample_state 1 [sample_entry 1, sample_entry 1])"

theorem append_entries_exact_witness:
  "\<exists>r n'. respond_to_append_entries indexed_ops 5 (sample_append 1 1 [sample_entry 2]) Alive
        sample_follower = (Ok r, n') \<and>
     aer_success r \<and> ms_entries (nd_state n') = [sample_entry 1, sample_entry 2]"
  using append_entries_exact [OF indexed.total_log_axioms, of 5 "sample_append 1 1 [sample_entry 2]" sample_follower]
  by (auto simp: accepts_append_def sample_append_def sample_follower_def sample_defs
      last_log_index_def entry_at_def)

text \<open>
  C22. No message of a peer lowers a node's term, however the handler ends - answered, stopped by
  an error of the store, or with nobody listening for the answer - and a message of a stale term
  changes nothing at all.
\<close>

theorem handlers_never_lower_term:
  "nd_current_term n \<le> nd_current_term (snd (respond_to_request_vote ops vreq tx n)) \<and>
   nd_current_term n \<le> nd_current_term (snd (respond_to_append_entries ops now areq tx n)) \<and>
   (rv_term vreq < nd_current_term n \<longrightarrow> snd (respond_to_request_vote ops vreq tx n) = n) \<and>
   (ae_term areq < nd_current_term n \<longrightarrow> snd (respond_to_append_entries ops now areq tx n) = n)"
  by (simp add: handler_term_mono vote_handler_term(2) append_handler_term(2))

theorem handlers_never_lower_term_witness:
  "snd (respond_to_request_vote memory_ops (sample_vote_request 1) Alive
     (sample_node 2 (sample_state 3 []))) = sample_node 2 (sample_state 3 [])"
  using handlers_never_lower_term [of "sample_node 2 (sample_state 3 [])" memory_ops "sample_vote_request 1"]
  by (simp add: sample_defs)

text \<open>
  Every leader whose message is not stale is followed: answering it, accepted or not, leaves
  the node a follower in the leader's term that knows the leader and when it heard of it, with
  its vote unchanged.
\<close>

theorem answered_leader_is_followed:
  assumes "respond_to_append_entries ops now req tx n = (Ok r, n')"
    and "nd_current_term n \<le> ae_term req"
  shows "nd_current_term n' = ae_term req \<and> nd_current_state n' = Follower
    \<and> nd_leader_id n' = Some (ae_leader_id req) \<and> nd_last_heard_from_leader n' = Some now
    \<and> nd_voted_for n' = nd_voted_for n"
  using append_follows [OF assms] by simp

lemma sample_append_run:
  "respond_to_append_entries memory_ops 5 (sample_append 9 1 []) Alive sample_follower =
     (Ok \<lparr>aer_term = 1, aer_success = False, aer_id = 2, aer_len = 0, aer_reason = AeLogMismatch\<rparr>,
      follow_leader 5 (sample_append 9 1 [])
        ((sample_state 1 [sample_entry 1, sample_entry 1])\<lparr>ms_current_term := 2\<rparr>) sample_follower)"
  by (simp add: respond_to_append_entries_def Let_def update_current_term_def on_state_run
      outcome_simps node_change_defs bind_c_def sample_append_def sample_follower_def sample_defs
      memory_defs follow_leader_def)

theorem answered_leader_is_followed_witness:
  "nd_leader_id (snd (respond_to_append_entries memory_ops 5 (sample_append 9 1 []) Alive
     sample_follower)) = Some 1"
  using answered_leader_is_followed [OF sample_append_run]
  unfolding sample_append_run
  by (simp add: sample_append_def sample_follower_def sample_defs)

section \<open>Replicating\<close>

text \<open>
  C19. What the message a leader composes for a peer does to the peer's log, under the documented indexing
  and for logs that fit 64-bit indexes. \<open>k\<close> is the index before the peer's next one. The peer accepts
  exactly if the leader's term is not stale, its log reaches \<open>k\<close> and has an entry of the same term there
  as the leader's; then its log is its own up to \<open>k\<close> followed by the leader's from there on, and
  otherwise it is unchanged. So the two logs are equal afterwards exactly if they agreed up to \<open>k\<close>. Log
  matching, which the code does not establish, is what would give that from the one term compared.
\<close>

theorem composed_entries_replicate:
  assumes leader: "raft_log ops log_of 1" and peer_store: "total_log fops flog 1"
    and session: "rs_peers_lock s = Unlocked" "hm_get (rs_peers s) peer = Some (nx, m)" "nx \<noteq> 0"
    and sizes: "length (log_of (nd_state (rs_node s))) < 2 ^ 64" "length (flog (nd_state n)) < 2 ^ 64"
    and composed: "compose_append_entries_request pr ops peer s = (Ok req, s')"
    and L: "L = log_of (nd_state (rs_node s))" and F: "F = flog (nd_state n)" and k: "k = unat (nx - 1)"
  shows "0 < k \<and> k \<le> length L \<and> (\<exists>r n'. respond_to_append_entries fops now req Alive n = (Ok r, n') \<and>
    (aer_success r \<longleftrightarrow> nd_current_term n \<le> nd_current_term (rs_node s) \<and>
       k \<le> length F \<and> le_term (F ! (k - 1)) = le_term (L ! (k - 1))) \<and>
    flog (nd_state n') = (if aer_success r then take k F @ drop k L else F) \<and>
    (aer_success r \<longrightarrow> (flog (nd_state n') = L \<longleftrightarrow> take k F = take k L) \<and>
       (log_matching L F \<longrightarrow> flog (nd_state n') = L)))"
proof -
  have nx: "unat nx = Suc k" using session(3) k by (metis Suc_pred' unat_minus_one unat_gt_0)
  obtain e where e: "entry_at 1 L (nx - 1) = Some e"
    and req: "ae_prev_log_index req = nx - 1" "ae_prev_log_term req = le_term e" "ae_term req = nd_current_term (rs_node s)"
      "ae_entries req = get_entries ops (nd_state (rs_node s)) nx None"
    using raft_log.compose_run [OF leader session, of pr] composed L by (auto split: option.splits)
  have entries: "ae_entries req = drop k L"
    using raft_log.get_entries_law [OF leader sizes(1)] by (simp add: req(4) nx L)
  from e have kL: "0 < k" "k \<le> length L" "L ! (k - 1) = e"
    by (auto simp: entry_at_Some k)
  have reach: "nx - 1 \<le> last_log_index F \<longleftrightarrow> k \<le> length F"
    using sizes(2) by (simp add: last_log_index_def word_le_nat_alt unat_of_nat_u64 k F)
  have found: "entry_at 1 F (nx - 1) = (if k \<le> length F then Some (F ! (k - 1)) else None)"
    using kL(1) by (auto simp: entry_at_def k)
  obtain r n' where run: "respond_to_append_entries fops now req Alive n = (Ok r, n')"
    and ok: "aer_success r \<longleftrightarrow> accepts_append 1 F n req"
    and log: "flog (nd_state n') = (if aer_success r then take k F @ drop k L else F)"
    using append_exact [OF peer_store, of now req n] by (auto simp: req(1) entries k F)
  have "aer_success r \<longleftrightarrow> nd_current_term n \<le> nd_current_term (rs_node s) \<and>
       k \<le> length F \<and> le_term (F ! (k - 1)) = le_term (L ! (k - 1))"
    using kL(3) by (auto simp: ok accepts_append_def req reach found simp del: One_nat_def)
  moreover have "take k F = take k L" if "log_matching L F" "k \<le> length F" "le_term (F ! (k - 1)) = le_term (L ! (k - 1))"
  proof -
    from that kL have "take (Suc (k - 1)) L = take (Suc (k - 1)) F" by (intro log_matchingD [OF that(1)]) auto
    with kL(1) show ?thesis by simp
  qed
  moreover have "take k F @ drop k L = L \<longleftrightarrow> take k F = take k L"
    by (metis append_take_drop_id same_append_eq append_same_eq)
  ultimately show ?thesis using run log kL by auto
qed

definition sample_leader_node :: "(nat memory_state, nat) raft_node" where
  "sample_leader_node = (sample_node 1 ((sample_state 2 [sample_entry 1, sample_entry 2, sample_entry 2])
       \<lparr>ms_commit_index := 1\<rparr>))\<lparr>nd_current_state := Leader\<rparr>"

definition sample_session :: "(node_id \<times> u64 \<times> u64 option) list \<Rightarrow> (nat memory_state, nat) replication_session" where
  "sample_session peers = \<lparr>rs_peers = peers, rs_peers_lock = Unlocked, rs_node = sample_leader_node\<rparr>"

definition sample_lagging :: "(nat memory_state, nat) raft_node" where
  "sample_lagging = sample_node 2 (sample_state 1 [sample_entry 1])"

definition sample_composed :: "nat append_entries_request" where
  "sample_composed = sample_append 1 1 [sample_entry 2, sample_entry 2]"

lemma sample_compose_run:
  "compose_append_entries_request pr indexed_ops 2 (sample_session [(2, (2, None))]) =
     (Ok sample_composed, sample_session [(2, (2, None))])"
  unfolding sample_composed_def
  by (subst indexed.compose_run [where nx = 2 and m = None])
    (simp_all add: sample_session_def sample_leader_node_def sample_append_def sample_defs hm_get_def
      entry_at_def indexed_ops_def)

theorem composed_entries_replicate_witness:
  "\<exists>r n'. respond_to_append_entries indexed_ops 5 sample_composed Alive sample_lagging = (Ok r, n') \<and>
     aer_success r \<and> ms_entries (nd_state n') = [sample_entry 1, sample_entry 2, sample_entry 2]"
proof -
  let ?L = "ms_entries (nd_state (rs_node (sample_session [(2, (2, None))])))"
  let ?F = "ms_entries (nd_state sample_lagging)"
  have "log_matching ?L ?F" "?L = [sample_entry 1, sample_entry 2, sample_entry 2]" "?F = [sample_entry 1]"
    "nd_current_term sample_lagging \<le> nd_current_term (rs_node (sample_session [(2, (2, None))]))"
    by (simp_all add: sample_session_def sample_leader_node_def sample_lagging_def sample_defs log_matching_def less_Suc_eq)
  with composed_entries_replicate [OF indexed.raft_log_axioms indexed.total_log_axioms _ _ _ _ _
      sample_compose_run [of Checked] refl refl refl, where n = sample_lagging and now = 5]
  show ?thesis by (auto simp: sample_session_def hm_get_def)
qed

text \<open>
  C20. Under the documented indexing a heartbeat erases the follower's log: its previous index 0
  names no entry, so every follower whose term is not above the leader's accepts it, drops all
  its entries and lowers its commit index to 0, whatever the leader had committed.
\<close>

theorem heartbeat_erases_log:
  assumes store: "total_log ops log_of 1" and not_stale: "nd_current_term n \<le> nd_current_term leader"
  shows "\<exists>r n'. respond_to_append_entries ops now (heartbeat_request leader commit) Alive n = (Ok r, n') \<and>
    aer_success r \<and> log_of (nd_state n') = [] \<and> get_last_commit_index ops (nd_state n') = 0"
proof -
  obtain r n' where run: "respond_to_append_entries ops now (heartbeat_request leader commit) Alive n = (Ok r, n')"
    and ok: "aer_success r \<longleftrightarrow> accepts_append 1 (log_of (nd_state n)) n (heartbeat_request leader commit)"
    and log: "log_of (nd_state n') = (if aer_success r then [] else log_of (nd_state n))"
    and commit: "get_last_commit_index ops (nd_state n') =
      (if aer_success r then min commit (last_log_index (log_of (nd_state n')))
       else get_last_commit_index ops (nd_state n))"
    using append_exact [OF store, of now "heartbeat_request leader commit" n]
    by (auto simp: heartbeat_request_def)
  moreover have "aer_success r"
    using ok not_stale by (simp add: accepts_append_def heartbeat_request_def entry_at_def)
  ultimately show ?thesis by (auto simp: last_log_index_def)
qed

theorem heartbeat_erases_log_witness:
  "\<exists>r n'. respond_to_append_entries indexed_ops 5 (heartbeat_request sample_follower 2) Alive
        sample_follower = (Ok r, n') \<and> ms_entries (nd_state sample_follower) \<noteq> [] \<and>
     aer_success r \<and> ms_entries (nd_state n') = []"
  using heartbeat_erases_log [OF indexed.total_log_axioms, of sample_follower sample_follower 5 2]
  by (auto simp: sample_follower_def sample_defs)

text \<open>
  C21. With entries counted from 0, as \<open>MemoryState\<close> does, the previous index 0 of a heartbeat names a
  follower's first entry. The heartbeat is accepted exactly if the leader is not stale and the follower's
  log is empty or starts with an entry of term 0; such a log is erased. In every other case the log
  is kept: a follower whose entries have terms other than 0 refuses every heartbeat as long as it has any.
\<close>

theorem heartbeat_on_zero_based_log:
  assumes store: "total_log ops log_of 0"
  shows "\<exists>r n'. respond_to_append_entries ops now (heartbeat_request leader commit) Alive n = (Ok r, n') \<and>
    (aer_success r \<longleftrightarrow> nd_current_term n \<le> nd_current_term leader \<and>
       (log_of (nd_state n) = [] \<or> le_term (hd (log_of (nd_state n))) = 0)) \<and>
    log_of (nd_state n') = (if aer_success r then [] else log_of (nd_state n))"
proof -
  obtain r n' where run: "respond_to_append_entries ops now (heartbeat_request leader commit) Alive n = (Ok r, n')"
    and ok: "aer_success r \<longleftrightarrow> accepts_append 0 (log_of (nd_state n)) n (heartbeat_request leader commit)"
    and log: "log_of (nd_state n') = (if aer_success r then [] else log_of (nd_state n))"
    using append_exact [OF store, of now "heartbeat_request leader commit" n]
    by (auto simp: heartbeat_request_def)
  moreover have "accepts_append 0 (log_of (nd_state n)) n (heartbeat_request leader commit) \<longleftrightarrow>
      nd_current_term n \<le> nd_current_term leader \<and>
      (log_of (nd_state n) = [] \<or> le_term (hd (log_of (nd_state n))) = 0)"
    by (cases "log_of (nd_state n)") (auto simp: accepts_append_def heartbeat_request_def entry_at_def)
  ultimately show ?thesis by auto
qed

theorem heartbeat_on_zero_based_log_witness:
  "\<exists>r n'. respond_to_append_entries memory_ops 5 (heartbeat_request sample_follower 2) Alive
        sample_follower = (Ok r, n') \<and> \<not> aer_success r"
  using heartbeat_on_zero_based_log [OF memory.total_log_axioms, of 5 sample_follower 2 sample_follower]
  by (auto simp: sample_follower_def sample_defs)

section \<open>The standby task\<close>

text \<open>
  C31. A new leader starts no replication: a peer counts as stale only when its next index is at
  most the commit index, every session begins with the index after it, and the stale peers are
  computed once. A standby task that gets to run before a heartbeat was refused starts no peer task
  and ends at once.
\<close>

theorem new_leader_never_replicates:
  assumes "replication_session_initialize pr ops n = Ok s"
    and "get_last_commit_index ops (nd_state n) \<noteq> - 1"
  shows "standby_task pr ops replies s = (Ok (), s) \<and> get_stale_peers ops s = (Ok [], s) \<and>
    map fst (rs_peers s) = filter (\<lambda>i. i \<noteq> nd_id n) (map fst (get_membership ops (nd_state n)))"
  using fresh_session_no_stale_peer [OF assms] initialize_keys [OF assms(1)]
  by (simp add: standby_task_def start_standby_update_for_peers_def outcome_simps)

definition sample_ok_answer :: append_entries_response where
  "sample_ok_answer = \<lparr>aer_term = 2, aer_success = True, aer_id = 2, aer_len = 2, aer_reason = AeOk\<rparr>"

lemma sample_session_initialize:
  "replication_session_initialize pr memory_ops sample_leader_node =
     Ok (sample_session [(2, (2, None)), (3, (2, None))])"
  by (simp add: replication_session_initialize_def u64_add_def sample_session_def
      sample_leader_node_def sample_defs)

theorem new_leader_never_replicates_witness:
  "standby_task Checked memory_ops [sample_ok_answer] (sample_session [(2, (2, None)), (3, (2, None))]) =
     (Ok (), sample_session [(2, (2, None)), (3, (2, None))])"
  using new_leader_never_replicates [OF sample_session_initialize]
  by (simp add: sample_leader_node_def sample_defs)

text \<open>
  C32. The standby task deadlocks on the first accepted answer: it asks for the read lock of the
  peers while it holds their write lock. By then it has doubled the peer's next index instead of
  advancing it; the lock stays taken, so that every later heartbeat task is stuck as well.
\<close>

theorem standby_task_deadlocks:
  assumes "rs_peers_lock s = Unlocked" and "aer_reason response = AeOk"
    and "hm_get (rs_peers s) (aer_id response) = Some (nx, m)"
    and "u64_add pr nx (aer_len response) = Ok a" and "u64_sub pr a 1 = Ok b" and "u64_add pr nx a = Ok d"
  shows "\<exists>s'. on_standby_response pr ops response s = (Blocked, s') \<and>
    rs_peers_lock s' = WriteLocked \<and> rs_node s' = rs_node s \<and>
    hm_get (rs_peers s') (aer_id response) = Some (nx + (nx + aer_len response), Some b) \<and>
    send_heartbeats pr ops replies s' = (Blocked, s')"
proof -
  from assms(4,6) have "d = nx + (nx + aer_len response)" by (auto simp: u64_add_def split: if_splits)
  then show ?thesis
    by (auto simp: standby_ok_blocks [OF assms] heartbeat_loop_blocked)
qed

theorem standby_task_deadlocks_witness:
  "\<exists>s'. on_standby_response Checked memory_ops sample_ok_answer (sample_session [(2, (2, None))]) = (Blocked, s')
     \<and> hm_get (rs_peers s') 2 = Some (6, Some 3)"
  using standby_task_deadlocks [of "sample_session [(2, (2, None))]" sample_ok_answer 2 None Checked 4 3 6 memory_ops "[]"]
  by (auto simp: sample_session_def sample_ok_answer_def hm_get_def u64_add_def u64_sub_def)

section \<open>What a leader sends\<close>

text \<open>
  A peer that is sent the log from its first entry cannot be served: with entries counted
  from 1 the previous index is 0, no entry has it, and composing the request panics on
  \<open>unwrap\<close>. A fresh cluster is in that case for every peer.
\<close>

theorem compose_from_first_entry_panics:
  assumes "raft_log ops log_of 1" and "rs_peers_lock s = Unlocked"
    and "hm_get (rs_peers s) peer = Some (1, m)"
  shows "compose_append_entries_request pr ops peer s = (Panicked UnwrapNone, s)"
  using raft_log.compose_run [OF assms(1-3), of pr] by (simp add: entry_at_def)

theorem compose_from_first_entry_panics_witness:
  "compose_append_entries_request Checked indexed_ops 2 (sample_session [(2, (1, None))])
     = (Panicked UnwrapNone, sample_session [(2, (1, None))])"
  by (rule compose_from_first_entry_panics [OF indexed.raft_log_axioms])
    (simp_all add: sample_session_def hm_get_def)

text \<open>
  C34. With entries counted from 0, as \<open>MemoryState\<close> does, the entries a leader composes skip
  one: the peer is cut back to the index before its next one and is then sent the log from the
  next one on. A peer whose log agreed with the leader's up to there ends up without that entry.
\<close>

theorem composed_entries_skip_one:
  assumes leader: "raft_log ops log_of 0" and peer_store: "raft_log fops flog 0"
    and session: "rs_peers_lock s = Unlocked" "hm_get (rs_peers s) peer = Some (nx, m)" "nx \<noteq> 0"
    and size: "length (log_of (nd_state (rs_node s))) < 2 ^ 64"
    and composed: "compose_append_entries_request pr ops peer s = (Ok req, s')"
    and agree: "take (unat nx) (flog (nd_state n)) = take (unat nx) (log_of (nd_state (rs_node s)))"
    and answered: "respond_to_append_entries fops now req tx n = (Ok r, n')"
    and accepted: "aer_success r"
  shows "flog (nd_state n') = take (unat (nx - 1)) (log_of (nd_state (rs_node s)))
      @ drop (unat nx) (log_of (nd_state (rs_node s))) \<and>
    length (flog (nd_state n')) = length (log_of (nd_state (rs_node s))) - 1"
proof -
  let ?L = "log_of (nd_state (rs_node s))" and ?F = "flog (nd_state n)"
  let ?k = "unat (nx - 1)"
  have k: "unat nx = Suc ?k" using session(3) by (metis Suc_pred' unat_minus_one unat_gt_0)
  obtain e where e: "entry_at 0 ?L (nx - 1) = Some e"
    and req: "ae_prev_log_index req = nx - 1"
      "ae_entries req = get_entries ops (nd_state (rs_node s)) nx None"
    using raft_log.compose_run [OF leader session, of pr] composed by (auto split: option.splits)
  from e have kL: "?k < length ?L" by (simp add: entry_at_Some)
  have "ae_entries req = drop (unat nx) ?L"
    by (simp add: req(2) raft_log.get_entries_law [OF leader size])
  moreover have "take ?k ?F = take ?k ?L"
    using arg_cong [OF agree, of "take ?k"] by (simp add: k min_def)
  ultimately have "flog (nd_state n') = take ?k ?L @ drop (unat nx) ?L"
    using raft_log.append_success [OF peer_store answered accepted] req(1) by simp
  with kL k show ?thesis by simp
qed

lemma sample_zero_based_compose:
  "compose_append_entries_request pr memory_ops 2 (sample_session [(2, (1, None))]) =
     (Ok (sample_composed\<lparr>ae_prev_log_index := 0\<rparr>), sample_session [(2, (1, None))])"
  unfolding sample_composed_def
  by (subst memory.compose_run [where nx = 1 and m = None])
    (simp_all add: sample_session_def sample_leader_node_def sample_append_def sample_defs hm_get_def
      entry_at_def memory_defs)

lemma sample_zero_based_run:
  "\<exists>n'. respond_to_append_entries memory_ops 5 (sample_composed\<lparr>ae_prev_log_index := 0\<rparr>) Alive sample_lagging =
     (Ok (ae_success sample_lagging sample_composed), n')"
  by (simp add: respond_to_append_entries_def Let_def update_current_term_def on_state_run
      outcome_simps node_change_defs bind_c_def sample_composed_def sample_append_def
      sample_lagging_def sample_defs memory_defs ae_success_def)

theorem composed_entries_skip_one_witness:
  "\<exists>r n'. respond_to_append_entries memory_ops 5 (sample_composed\<lparr>ae_prev_log_index := 0\<rparr>) Alive sample_lagging = (Ok r, n') \<and>
     ms_entries (nd_state n') = [sample_entry 2, sample_entry 2]"
proof -
  obtain n' where run: "respond_to_append_entries memory_ops 5 (sample_composed\<lparr>ae_prev_log_index := 0\<rparr>) Alive sample_lagging =
     (Ok (ae_success sample_lagging sample_composed), n')"
    using sample_zero_based_run by blast
  have "ms_entries (nd_state n') =
        take (unat ((1 :: u64) - 1)) (ms_entries (nd_state (rs_node (sample_session [(2, (1, None))]))))
        @ drop (unat (1 :: u64)) (ms_entries (nd_state (rs_node (sample_session [(2, (1, None))])))) \<and>
      length (ms_entries (nd_state n')) =
        length (ms_entries (nd_state (rs_node (sample_session [(2, (1, None))])))) - 1"
    by (rule composed_entries_skip_one [OF memory.raft_log_axioms memory.raft_log_axioms _ _ _ _
          sample_zero_based_compose [of Checked] _ run, where m = None])
      (simp_all add: sample_session_def sample_leader_node_def sample_lagging_def sample_defs
        hm_get_def ae_success_def)
  with run show ?thesis
    by (auto simp: sample_session_def sample_leader_node_def sample_node_def sample_state_def)
qed

text \<open>
  A heartbeat round of a new leader sends one heartbeat of its term to every member but
  itself, in the order of the membership, and nothing else; the session stays as it was.
\<close>

theorem heartbeats_reach_every_other_member:
  assumes init: "replication_session_initialize pr ops n = Ok s"
    and out: "ch_receiver (out_rpc (nd_channels n)) = Alive" "ch_capacity (out_rpc (nd_channels n)) = None"
  shows "\<exists>s'. send_heartbeat_to_peers ops s = (Ok (), s') \<and>
    ch_queue (out_rpc (nd_channels (rs_node s'))) = ch_queue (out_rpc (nd_channels n)) @
      map (\<lambda>i. (i, AppendEntries (heartbeat_request n (get_last_commit_index ops (nd_state n))) Alive))
        (filter (\<lambda>i. i \<noteq> nd_id n) (map fst (get_membership ops (nd_state n)))) \<and>
    rs_peers s' = rs_peers s \<and> rs_peers_lock s' = Unlocked"
proof -
  let ?ci = "get_last_commit_index ops (nd_state n)"
  let ?s1 = "s\<lparr>rs_peers_lock := ReadLocked 0\<rparr>"
  let ?s2 = "emit_heartbeats ?ci (map fst (rs_peers s)) ?s1"
  note s = initialize_session [OF init]
  have "ch_receiver (out_rpc (nd_channels (rs_node ?s1))) = Alive"
    "ch_capacity (out_rpc (nd_channels (rs_node ?s1))) = None"
    using out s(1) by simp_all
  note sent = emit_heartbeats_queue [OF this, of ?ci "map fst (rs_peers s)"]
  have "send_heartbeat_to_peers ops s = (Ok (), release_read ?s2)"
    by (simp add: send_heartbeat_to_peers_def with_read_def acquire_read_def holding_def bind_c_def
        outcome_simps s(1,2))
  moreover have "release_read ?s2 = ?s2\<lparr>rs_peers_lock := Unlocked\<rparr>"
    using sent by (simp add: release_read_def)
  ultimately show ?thesis using sent s(1) initialize_keys [OF init] by simp
qed

theorem heartbeats_reach_every_other_member_witness:
  "\<exists>s'. send_heartbeat_to_peers memory_ops (sample_session [(2, (2, None)), (3, (2, None))]) = (Ok (), s') \<and>
     map fst (ch_queue (out_rpc (nd_channels (rs_node s')))) = [2, 3]"
  using heartbeats_reach_every_other_member [OF sample_session_initialize]
  by (auto simp: sample_leader_node_def sample_defs create_channels_def unbounded_channel_def)

end
