(* ===== verification/Leader_Sessions.thy ===== *)
theory Leader_Sessions
  imports Logs
begin

text \<open>
  The leader's table of peers along the tasks that share it: who is in it, when its lock is free,
  and what repeated refusals do to a peer's next index.
\<close>

section \<open>The table and its lock\<close>

text \<open>
  \<open>table_kept\<close>: the peers in the table stay the same, in the same order, and so does the node they
  are peers of.
\<close>

definition table_kept :: "('s, 'r) replication_session \<Rightarrow> ('s, 'r) replication_session \<Rightarrow> bool" where
  "table_kept s s' \<longleftrightarrow>
     map fst (rs_peers s') = map fst (rs_peers s) \<and> nd_id (rs_node s') = nd_id (rs_node s)"

lemma table_kept_preorder [guarantee_intros]: "reflp table_kept" "transp table_kept"
  by (auto simp: table_kept_def intro!: reflpI transpI)

lemma table_kept_wf: "table_kept s s' \<Longrightarrow> wf_session s \<Longrightarrow> wf_session s'"
  unfolding table_kept_def wf_session_def is_hashmap_def by (metis list.set_map)

lemma table_kept_node [guarantee_intros]:
  "guarantees (node_frame L D K) m \<Longrightarrow> guarantees table_kept (on_rs_node m)"
  by (auto simp: guarantees_def on_rs_node_def zoom_c_def table_kept_def node_frame_def split: prod.split)
    (metis snd_conv)+

lemma table_kept_lock [guarantee_intros]:
  assumes "guarantees table_kept m"
  shows "guarantees table_kept (with_read m)" "guarantees table_kept (with_write m)"
proof -
  have hold: "guarantees table_kept (holding release_read m)" "guarantees table_kept (holding release_write m)"
    using assms
    by (auto simp: guarantees_def holding_def release_read_def release_write_def table_kept_def
        split: prod.split outcome.split rwlock.split nat.split) (metis snd_conv)+
  have acquire: "guarantees table_kept acquire_read" "guarantees table_kept acquire_write"
    by (auto simp: guarantees_def acquire_read_def acquire_write_def table_kept_def split: rwlock.split)
  show "guarantees table_kept (with_read m)"
    unfolding with_read_def by (intro guarantees_then table_kept_preorder acquire(1) hold(1))
  show "guarantees table_kept (with_write m)"
    unfolding with_write_def by (intro guarantees_then table_kept_preorder acquire(2) hold(2))
qed

text \<open>An entry is only ever replaced by one for the same peer.\<close>

lemma hm_get_None: "hm_get m i = None \<longleftrightarrow> i \<notin> set (map fst m)"
  by (simp add: hm_get_def map_of_eq_None_iff)

lemma peers_set_known: "hm_get m i \<noteq> None \<Longrightarrow> map fst (hm_set i e m) = map fst m"
  by (auto simp: hm_get_def hm_set_def update_keys map_of_eq_None_iff)

text \<open>What comes after a successful look-up of \<open>i\<close> need only keep tables that hold \<open>i\<close>.\<close>

definition kept_with :: "node_id \<Rightarrow> ('s, 'r) replication_session \<Rightarrow> ('s, 'r) replication_session \<Rightarrow> bool" where
  "kept_with i s s' \<longleftrightarrow> (hm_get (rs_peers s) i \<noteq> None \<longrightarrow> table_kept s s')"

lemma kept_with_preorder [guarantee_intros]: "reflp (kept_with i)" "transp (kept_with i)"
proof -
  show "reflp (kept_with i)" by (simp add: kept_with_def table_kept_def reflpI)
  have "hm_get (rs_peers s') i \<noteq> None" if "table_kept s s'" "hm_get (rs_peers s) i \<noteq> None"
    for s s'
    using that by (simp add: hm_get_None table_kept_def del: set_map)
  then show "transp (kept_with i)"
    using transpD [OF table_kept_preorder(2)] unfolding kept_with_def transp_def by blast
qed

lemma kept_with_set [guarantee_intros]: "guarantees (kept_with i) (set_peer i e)"
  by (simp add: guarantees_def kept_with_def table_kept_def set_peer_def modify_c_def peers_set_known)

lemma kept_with_lift [guarantee_intros]: "guarantees table_kept m \<Longrightarrow> guarantees (kept_with i) m"
  by (simp add: guarantees_def kept_with_def)

lemma kept_with_entry [guarantee_intros]:
  assumes "\<And>e. guarantees (kept_with i) (k e)"
  shows "guarantees table_kept (bind_c (peer_entry i) k)"
proof (rule guaranteesI)
  fix s
  show "table_kept s (snd (bind_c (peer_entry i) k s))"
    using guarantees_at [OF assms, where s = s]
    by (cases "hm_get (rs_peers s) i") (simp_all add: peer_entry_def bind_c_def kept_with_def table_kept_def)
qed

lemma table_kept_tasks [guarantee_intros]:
  "guarantees table_kept (decrement_next_index pr i)"
  "guarantees table_kept (leader_steps_down ops t)"
  "guarantees table_kept (calculate_last_commit_index ops)"
  "guarantees table_kept (advance_commit ops c c')"
  "guarantees table_kept (on_heartbeat_response pr ops response)"
proof -
  show decrement: "guarantees table_kept (decrement_next_index pr i)" for i
    unfolding decrement_next_index_def by (intro guarantee_intros)
  show down: "guarantees table_kept (leader_steps_down ops t)" for t
    unfolding leader_steps_down_def
    by (intro guarantees_then table_kept_preorder table_kept_node [where L = False and D = True and K = True]
        guarantee_intros)
  show "guarantees table_kept (calculate_last_commit_index ops)"
    unfolding calculate_last_commit_index_def by (intro guarantee_intros)
  show "guarantees table_kept (advance_commit ops c c')"
    unfolding advance_commit_def
    by (intro guarantees_case guarantees_if guarantees_pure table_kept_preorder
        table_kept_node [where L = False and D = False and K = False] node_frame_state)
  show "guarantees table_kept (on_heartbeat_response pr ops response)"
    unfolding on_heartbeat_response_def using decrement down by (intro guarantee_intros)
qed

lemma table_kept_turns [guarantee_intros]:
  "guarantees table_kept (on_standby_response pr ops response)"
  "guarantees table_kept (send_heartbeat_to_peers ops)"
  "guarantees table_kept (get_stale_peers ops)"
  "guarantees table_kept (update_peer_turn pr ops peer reply rx stopped)"
proof -
  show "guarantees table_kept (on_standby_response pr ops response)"
    unfolding on_standby_response_def by (intro guarantee_intros)
  have "table_kept s (emit_heartbeats ci ps s)" for ci ps and s :: "('a, 'b) replication_session"
  proof (induction ps arbitrary: s)
    case (Cons p ps)
    let ?s = "s\<lparr>rs_node := snd (emit_append_entries (heartbeat_request (rs_node s) ci) p (rs_node s))\<rparr>"
    have "node_frame False False False (rs_node s) (rs_node ?s)"
      using guarantees_at [OF node_frame_emit(2)] by simp
    with Cons.IH [of ?s] show ?case by (simp add: table_kept_def node_frame_def)
  qed (simp add: table_kept_def)
  then have beats: "guarantees table_kept (modify_c (\<lambda>s :: ('a, 'b) replication_session. emit_heartbeats ci (map fst (rs_peers s)) s))" for ci
    by (intro guarantees_modify)
  show "guarantees table_kept (send_heartbeat_to_peers ops)"
    unfolding send_heartbeat_to_peers_def using beats by (intro guarantee_intros)
  show "guarantees table_kept (get_stale_peers ops)"
    unfolding get_stale_peers_def by (intro guarantee_intros)
  have match: "guarantees table_kept (peer_matches ops peer)"
    unfolding peer_matches_def by (intro guarantee_intros)
  have compose: "guarantees table_kept (compose_append_entries_request pr ops peer)"
    unfolding compose_append_entries_request_def by (intro guarantee_intros)
  have send: "guarantees table_kept (on_rs_node (send_append_entries_rpc req peer reply rx))" for req
    by (rule table_kept_node [where L = False and D = False and K = False]) (rule node_frame_emit)
  show "guarantees table_kept (update_peer_turn pr ops peer reply rx stopped)"
    unfolding update_peer_turn_def
    by (intro guarantees_bind guarantees_then guarantees_if guarantees_pure table_kept_preorder match compose send)
qed

lemma table_kept_loops [guarantee_intros]:
  "guarantees table_kept (heartbeat_loop pr ops replies)"
  "guarantees table_kept (standby_loop pr ops replies)"
  "guarantees table_kept (update_peer_loop pr ops peer rx env)"
proof -
  have control: "guarantees table_kept (case c of Next \<Rightarrow> m | Stop \<Rightarrow> return_c ())"
    if "guarantees table_kept m" for m :: "('a, 'b, unit) session_comp" and c
    using that guarantees_pure(1) [OF table_kept_preorder(1)] by (cases c) simp_all
  show "guarantees table_kept (heartbeat_loop pr ops replies)"
    by (induction replies) (simp_all add: control guarantees_bind table_kept_preorder table_kept_tasks guarantees_pure)
  show "guarantees table_kept (standby_loop pr ops replies)"
    by (induction replies) (simp_all add: control guarantees_bind table_kept_preorder table_kept_turns guarantees_pure)
  show "guarantees table_kept (update_peer_loop pr ops peer rx env)"
    by (induction env) (auto intro!: control guarantees_bind table_kept_preorder table_kept_turns guarantees_pure)
qed

text \<open>
  \<open>settles m\<close>: started while the lock is free, \<open>m\<close> leaves it free unless it is suspended.
\<close>

definition settles :: "('s, 'r, 'a) session_comp \<Rightarrow> bool" where
  "settles m \<longleftrightarrow> (\<forall>s. rs_peers_lock s = Unlocked \<longrightarrow> fst (m s) = Blocked \<or> rs_peers_lock (snd (m s)) = Unlocked)"

named_theorems settles_intros \<open>the lock is free again\<close>

lemma settles_bind [settles_intros]:
  assumes "settles m" and "\<And>a. settles (k a)"
  shows "settles (bind_c m k)"
  unfolding settles_def
proof (intro allI impI)
  fix s :: "('a, 'b) replication_session" assume "rs_peers_lock s = Unlocked"
  with assms(1) have m: "fst (m s) = Blocked \<or> rs_peers_lock (snd (m s)) = Unlocked"
    by (simp add: settles_def)
  obtain r s1 where ms: "m s = (r, s1)" by force
  show "fst (bind_c m k s) = Blocked \<or> rs_peers_lock (snd (bind_c m k s)) = Unlocked"
  proof (cases r)
    case (Ok a)
    with m ms assms(2) [of a] show ?thesis by (simp add: settles_def bind_c_def)
  qed (use m ms in \<open>simp_all add: bind_c_def\<close>)
qed

lemma settles_then [settles_intros]: "settles m \<Longrightarrow> settles k \<Longrightarrow> settles (then_c m k)"
  by (simp add: then_c_def settles_bind)

lemma settles_pure [settles_intros]:
  "settles (return_c a)" "settles (lift_c r)" "settles (gets_c f)"
  by (simp_all add: settles_def return_c_def lift_c_def gets_c_def)

lemma settles_node [settles_intros]: "settles (on_rs_node m)"
  by (auto simp: settles_def on_rs_node_def zoom_c_def split: prod.split)

lemma settles_if [settles_intros]: "settles m \<Longrightarrow> settles k \<Longrightarrow> settles (if b then m else k)"
  by simp

lemma settles_write [settles_intros]: "settles (with_write m)"
  by (auto simp: settles_def with_write_def acquire_write_def holding_def outcome_simps bind_c_def
      release_write_def split: prod.split outcome.split)

text \<open>What runs under a read guard never takes the lock itself.\<close>

lemma same_lock_preorder: "reflp (via rs_peers_lock (=))" "transp (via rs_peers_lock (=))"
  by (simp_all add: via_preorder reflpI transpI)

lemma same_lock_entry: "guarantees (via rs_peers_lock (=)) (peer_entry i)"
  by (simp add: guarantees_def via_def peer_entry_def split: option.split)

lemma settles_read:
  assumes "guarantees (via rs_peers_lock (=)) m"
  shows "settles (with_read m)"
proof -
  have "rs_peers_lock s1 = ReadLocked 0" if "m (s\<lparr>rs_peers_lock := ReadLocked 0\<rparr>) = (r, s1)" for s r s1
    using guaranteesD [OF assms that] by (simp add: via_def)
  then show ?thesis
    by (auto simp: settles_def with_read_def acquire_read_def holding_def outcome_simps bind_c_def
        release_read_def split: prod.split outcome.split)
qed

lemma settles_reads [settles_intros]:
  "settles (send_heartbeat_to_peers ops)" "settles (get_stale_peers ops)"
  "settles (peer_matches ops peer)" "settles (compose_append_entries_request pr ops peer)"
proof -
  have "rs_peers_lock (emit_heartbeats ci ps s) = rs_peers_lock s" for ci ps and s :: "('a, 'b) replication_session"
    by (induction ps arbitrary: s) simp_all
  then have "guarantees (via rs_peers_lock (=)) (modify_c (\<lambda>s :: ('a, 'b) replication_session.
      emit_heartbeats ci (map fst (rs_peers s)) s))" for ci
    by (intro guarantees_modify) (simp add: via_def)
  then show "settles (send_heartbeat_to_peers ops)"
    unfolding send_heartbeat_to_peers_def by (intro settles_intros settles_read)
  show "settles (get_stale_peers ops)"
    unfolding get_stale_peers_def by (intro settles_read guarantees_pure same_lock_preorder)
  show "settles (peer_matches ops peer)"
    unfolding peer_matches_def
    by (intro settles_read guarantees_bind guarantees_pure guarantees_case same_lock_preorder same_lock_entry)
  show "settles (compose_append_entries_request pr ops peer)"
    unfolding compose_append_entries_request_def
    by (intro settles_read guarantees_bind guarantees_pure guarantees_case same_lock_preorder same_lock_entry)
qed

lemma settles_turns [settles_intros]:
  "settles (on_heartbeat_response pr ops response)" "settles (on_standby_response pr ops response)"
  "settles (update_peer_turn pr ops peer reply rx stopped)"
  unfolding on_heartbeat_response_def on_standby_response_def update_peer_turn_def
  by (intro settles_intros)+

lemma settles_loops [settles_intros]:
  "settles (heartbeat_loop pr ops replies)" "settles (standby_loop pr ops replies)"
  "settles (update_peer_loop pr ops peer rx env)"
proof -
  have control: "settles (case c of Next \<Rightarrow> m | Stop \<Rightarrow> return_c ())"
    if "settles m" for m :: "('a, 'b, unit) session_comp" and c
    using that settles_pure(1) by (cases c) simp_all
  show "settles (heartbeat_loop pr ops replies)"
    by (induction replies) (simp_all add: control settles_intros)
  show "settles (standby_loop pr ops replies)"
    by (induction replies) (simp_all add: control settles_intros)
  show "settles (update_peer_loop pr ops peer rx env)"
    by (induction env) (auto intro!: control settles_intros)
qed

section \<open>Properties\<close>

text \<open>
  C29. The table of peers is well formed for as long as the session lives: no task of a leader - a
  heartbeat round with its answers, the standby task, the task that updates one peer - adds,
  removes or reorders peers or enters the node itself, whatever is answered and however the task
  ends; and a task that ends, even with an error or a panic, has given the lock back.
\<close>

theorem session_table_is_kept:
  assumes wf: "wf_session s" "rs_peers_lock s = Unlocked"
    and task: "op' = send_heartbeats pr ops replies \<or> op' = standby_task pr ops replies \<or>
      op' = update_peer_loop pr ops peer rx env"
    and run: "op' s = (r, s')"
  shows "wf_session s' \<and> map fst (rs_peers s') = map fst (rs_peers s) \<and>
    (r \<noteq> Blocked \<longrightarrow> rs_peers_lock s' = Unlocked)"
proof -
  have "guarantees table_kept op'"
    using task unfolding send_heartbeats_def standby_task_def start_standby_update_for_peers_def
    by (elim disjE) (simp_all, (intro guarantee_intros)+)
  then have kept: "table_kept s s'" using run by (rule guaranteesD)
  have "settles op'"
    using task unfolding send_heartbeats_def standby_task_def start_standby_update_for_peers_def
    by (elim disjE) (simp_all, (intro settles_intros)+)
  with wf(2) run have "r \<noteq> Blocked \<longrightarrow> rs_peers_lock s' = Unlocked" by (force simp: settles_def)
  with kept table_kept_wf [OF kept wf(1)] show ?thesis by (simp add: table_kept_def)
qed

definition sample_mismatch :: append_entries_response where
  "sample_mismatch = \<lparr>aer_term = 2, aer_success = False, aer_id = 2, aer_len = 0, aer_reason = AeLogMismatch\<rparr>"

lemma sample_mismatch_run:
  "fst (send_heartbeats Checked memory_ops [sample_mismatch] (sample_session [(2, (2, None)), (3, (2, None))])) = Ok ()"
  by (simp add: send_heartbeats_def send_heartbeat_to_peers_def on_heartbeat_response_def decrement_next_index_def
      with_read_def with_write_def acquire_read_def acquire_write_def holding_def release_read_def release_write_def
      peer_entry_def set_peer_def sample_session_def sample_mismatch_def hm_get_def u64_sub_def outcome_simps
      bind_c_def emit_append_entries_def on_out_rpc_def)

theorem session_table_is_kept_witness:
  "\<exists>r s'. send_heartbeats Checked memory_ops [sample_mismatch] (sample_session [(2, (2, None)), (3, (2, None))]) =
     (r, s') \<and> map fst (rs_peers s') = [2, 3] \<and> rs_peers_lock s' = Unlocked"
proof -
  let ?s = "sample_session [(2, (2, None)), (3, (2, None))]"
  obtain r s' where run: "send_heartbeats Checked memory_ops [sample_mismatch] ?s = (r, s')" by force
  have "wf_session ?s" "rs_peers_lock ?s = Unlocked"
    by (simp_all add: wf_session_def sample_session_def is_hashmap_def sample_leader_node_def sample_node_def)
  from session_table_is_kept [OF this disjI1 [OF refl] run] sample_mismatch_run run show ?thesis
    by (auto simp: sample_session_def)
qed

text \<open>
  C30. Refused heartbeats count a peer's next index down, one per refusal, until it is 0; the next
  refusal panics the heartbeat task when overflow is checked, and wraps the index to the largest
  \<open>u64\<close> when it is not. Over the test store every heartbeat to a follower that has entries is
  refused, so this happens to every such peer.
\<close>

lemma heartbeat_mismatch_run:
  assumes "rs_peers_lock s = Unlocked" and "hm_get (rs_peers s) p = Some (nx, m)"
    and "aer_reason response = AeLogMismatch" "aer_id response = p"
  shows "on_heartbeat_response pr ops response s =
    (if pr = Checked \<and> nx = 0 then (Panicked ArithmeticOverflow, s)
     else (Ok Next, s\<lparr>rs_peers := hm_set p (nx - 1, m) (rs_peers s)\<rparr>))"
proof -
  have sub: "u64_sub pr nx 1 = (if pr = Checked \<and> nx = 0 then Panicked ArithmeticOverflow else Ok (nx - 1))"
    by (auto simp: u64_sub_def unat_gt_0 [symmetric])
  have unlock: "s\<lparr>rs_peers_lock := Unlocked\<rparr> = s" "s\<lparr>rs_peers := x, rs_peers_lock := Unlocked\<rparr> = s\<lparr>rs_peers := x\<rparr>" for x
    using assms(1) by (cases s; simp)+
  show ?thesis
    using assms sub
    by (auto simp: on_heartbeat_response_def decrement_next_index_def with_write_def acquire_write_def holding_def
        release_write_def peer_entry_def set_peer_def outcome_simps bind_c_def unlock)
qed

theorem mismatches_exhaust_next_index:
  assumes "rs_peers_lock s = Unlocked" and "hm_get (rs_peers s) p = Some (nx, m)"
    and "\<forall>r \<in> set replies. aer_reason r = AeLogMismatch \<and> aer_id r = p"
  shows "\<exists>s'. heartbeat_loop pr ops replies s =
      (if pr = Wrapping \<or> length replies \<le> unat nx then Ok () else Panicked ArithmeticOverflow, s') \<and>
    rs_peers_lock s' = Unlocked \<and>
    hm_get (rs_peers s') p =
      Some (if pr = Wrapping \<or> length replies \<le> unat nx then nx - of_nat (length replies) else 0, m)"
  using assms
proof (induction replies arbitrary: s nx)
  case (Cons r replies)
  note step = heartbeat_mismatch_run [OF Cons.prems(1,2), of r pr ops]
  show ?case
  proof (cases "pr = Checked \<and> nx = 0")
    case True
    with step Cons.prems show ?thesis by (simp add: bind_c_def)
  next
    case False
    let ?s = "s\<lparr>rs_peers := hm_set p (nx - 1, m) (rs_peers s)\<rparr>"
    have fits: "(pr = Wrapping \<or> length replies \<le> unat (nx - 1)) = (pr = Wrapping \<or> Suc (length replies) \<le> unat nx)"
    proof (cases pr)
      case Checked
      with False have "nx \<noteq> 0" by simp
      then have "unat (nx - 1) = unat nx - 1" "0 < unat nx" by (simp_all add: unat_minus_one unat_gt_0)
      then show ?thesis by auto
    qed simp
    have "\<exists>s'. heartbeat_loop pr ops replies ?s =
        (if pr = Wrapping \<or> length replies \<le> unat (nx - 1) then Ok () else Panicked ArithmeticOverflow, s') \<and>
      rs_peers_lock s' = Unlocked \<and>
      hm_get (rs_peers s') p =
        Some (if pr = Wrapping \<or> length replies \<le> unat (nx - 1) then (nx - 1) - of_nat (length replies) else 0, m)"
      using Cons.prems by (intro Cons.IH) simp_all
    with step False Cons.prems(3) show ?thesis
      unfolding fits by (auto simp: bind_c_def algebra_simps split: if_splits)
  qed
qed (simp add: return_c_def)

theorem mismatches_exhaust_next_index_witness:
  "fst (heartbeat_loop Checked memory_ops (replicate 3 sample_mismatch) (sample_session [(2, (2, None))])) =
     Panicked ArithmeticOverflow \<and>
   (\<exists>s'. heartbeat_loop Wrapping memory_ops (replicate 3 sample_mismatch) (sample_session [(2, (2, None))]) = (Ok (), s') \<and>
     hm_get (rs_peers s') 2 = Some (- 1, None))"
  using mismatches_exhaust_next_index [of "sample_session [(2, (2, None))]" 2 2 None "replicate 3 sample_mismatch" Checked memory_ops]
    mismatches_exhaust_next_index [of "sample_session [(2, (2, None))]" 2 2 None "replicate 3 sample_mismatch" Wrapping memory_ops]
  by (auto simp: sample_session_def hm_get_def sample_mismatch_def)

text \<open>The stale peers, and which they are as long as nothing is committed.\<close>

lemma stale_peers_run:
  assumes "rs_peers_lock s = Unlocked"
  shows "get_stale_peers ops s =
    (Ok (map fst (filter (\<lambda>(_, nx, _). nx \<le> get_last_commit_index ops (nd_state (rs_node s))) (rs_peers s))), s)"
  using assms by (simp add: get_stale_peers_def with_read_pure Let_def)

lemma stale_peer_zero:
  assumes "rs_peers_lock s = Unlocked" and "is_hashmap (rs_peers s)"
    and "get_last_commit_index ops (nd_state (rs_node s)) = 0"
    and "get_stale_peers ops s = (Ok ps, s')"
  shows "p \<in> set ps \<longleftrightarrow> (\<exists>m. hm_get (rs_peers s) p = Some (0, m))"
  using assms by (auto simp: stale_peers_run hm_get_def is_hashmap_def word_le_0_iff image_iff)

text \<open>
  C33. Before the first commit no entry is ever sent. As long as the commit index is 0 the only
  stale peers are those that refused a heartbeat, whose next index is now 0; the task of such a
  peer stops at once if the peer counts as matching, and panics otherwise: on the index before the
  next one, which overflows, or wraps to one at which there is no entry. The session is untouched.
\<close>

theorem nothing_sent_before_first_commit:
  assumes contract: "raft_log ops log_of base"
    and size: "length (log_of (nd_state (rs_node s))) + base < 2 ^ 64"
    and session: "rs_peers_lock s = Unlocked" "is_hashmap (rs_peers s)"
    and commit: "get_last_commit_index ops (nd_state (rs_node s)) = 0"
    and stale: "get_stale_peers ops s = (Ok ps, s1)" "p \<in> set ps"
  shows "update_peer_turn pr ops p reply rx stopped s =
    (if snd (the (hm_get (rs_peers s) p)) = Some 0 then (Ok Stop, s)
     else (Panicked (if pr = Checked then ArithmeticOverflow else UnwrapNone), s))"
proof -
  obtain m where m: "hm_get (rs_peers s) p = Some (0, m)"
    using stale_peer_zero [OF session commit stale(1)] stale(2) by blast
  have none: "entry_at base (log_of (nd_state (rs_node s))) (- 1) = None"
    using size by (auto simp: entry_at_None unsigned_minus_1_eq_mask mask_eq_exp_minus_1)
  show ?thesis
    using session(1) commit m none raft_log.get_entry_law [OF contract]
    by (cases s) (auto simp: update_peer_turn_def peer_matches_def compose_append_entries_request_def peer_entry_def
      with_read_def acquire_read_def holding_def release_read_def u64_sub_def outcome_simps bind_c_def unat_gt_0
      split: option.splits)
qed

definition refused_session :: "(nat memory_state, nat) replication_session" where
  "refused_session = (sample_session [(2, (0, None)), (3, (1, None))])\<lparr>rs_node := sample_node 1 (sample_state 1 [])\<rparr>"

theorem nothing_sent_before_first_commit_witness:
  "update_peer_turn Checked memory_ops 2 None Alive False refused_session = (Panicked ArithmeticOverflow, refused_session) \<and>
   update_peer_turn Wrapping memory_ops 2 None Alive False refused_session = (Panicked UnwrapNone, refused_session)"
proof -
  have "get_stale_peers memory_ops refused_session = (Ok [2], refused_session)"
    by (simp add: stale_peers_run refused_session_def sample_session_def sample_node_def sample_state_def)
  from nothing_sent_before_first_commit [OF memory.raft_log_axioms _ _ _ _ this] show ?thesis
    by (simp add: refused_session_def sample_session_def sample_node_def sample_state_def is_hashmap_def hm_get_def)
qed

end
