(* ===== verification/Lifecycle.thy ===== *)
theory Lifecycle
  imports Logs
begin

text \<open>
  The properties of a node's life: how it is built from its store, how its timers drive the
  loops of the roles, what becomes of a client's request in each role, and what its channels
  promise.
\<close>

section \<open>Building a node\<close>

text \<open>
  C38. A node is rebuilt from what its store persisted: it is a follower with no leader in the
  stored term with the stored vote, and it takes the seeds as its membership only if the store
  has none.
\<close>

theorem build_restores_store:
  assumes store: "raft_log ops log_of base" and built: "builder_build ops b = Ok n"
  shows "nd_current_state n = Follower \<and> nd_leader_id n = None \<and>
    nd_current_term n = load_current_term ops (b_state b) \<and>
    nd_voted_for n = load_voted_for ops (b_state b) \<and>
    get_membership ops (nd_state n) =
      (if get_membership ops (b_state b) = [] then b_seeds b else get_membership ops (b_state b))"
  using build_fields [OF built] raft_log.build_membership [OF store built] by simp

theorem build_restores_store_witness:
  "builder_build memory_ops (sample_builder 1 (sample_state 4 [])) = Ok (sample_node 1 (sample_state 4 [])) \<and>
   nd_current_term (sample_node 1 (sample_state 4 [])) = 4"
  using build_restores_store [OF memory.raft_log_axioms sample_node_built, of 1 4 "[]"] sample_node_built
  by (simp add: sample_builder_def builder_channels_def builder_id_def builder_state_def
      builder_default_def sample_state_def)

section \<open>Timers\<close>

text \<open>
  A timer is armed within its bounds: a fresh or re-armed election timeout ends at least the
  lower and less than the upper bound of the range (in milliseconds) after now, a heartbeat or
  retry timer exactly its interval after now.
\<close>

theorem timers_armed_within_bounds:
  assumes gen: "range_gen gen_range"
  shows "(\<forall>lo hi t. start_range gen_range now (lo, hi) = Ok t \<longrightarrow>
           now + from_millis lo \<le> deadline t \<and> deadline t < now + from_millis hi) \<and>
    deadline (timeout_start now d) = now + from_millis d \<and>
    (\<forall>t t'. timeout_reset gen_range now t = Ok t' \<longrightarrow> armed_within now (to_duration t) t')"
  using start_range_armed [OF gen] reset_armed [OF gen] timeout_start_armed [of now d]
  by (fastforce simp: armed_within_def)

theorem timers_armed_within_bounds_witness:
  "\<exists>t. start_range low_end 0 (150, 300) = Ok t \<and> 150000000 \<le> deadline t \<and> deadline t < 300000000"
proof -
  obtain t where t: "start_range low_end 0 (150, 300) = Ok t" by (simp add: start_range_def)
  then have "0 + from_millis 150 \<le> deadline t \<and> deadline t < 0 + from_millis 300"
    using timers_armed_within_bounds [OF low_end_range, of 0 50] by blast
  with t show ?thesis by (simp add: from_millis_def)
qed

text \<open>The timers a role's loop waits for in its next \<open>select!\<close>, while its role is the node's.\<close>

fun loop_timers :: "('s, 'r) main_task \<Rightarrow> timeout list option" where
  "loop_timers (FollowerLoop t) = (if is_follower_state (ft_node t) then Some [ft_election_timeout t] else None)"
| "loop_timers (CandidateLoop t) =
     (if is_candidate_state (ct_node t) then Some [ct_retry_timeout t, ct_election_timeout t] else None)"
| "loop_timers (LeaderLoop t) = (if is_leader_state (lt_node t) then Some [lt_heartbeat_timeout t] else None)"
| "loop_timers _ = None"

fun waiting :: "('s, 'r) main_task \<Rightarrow> ('s, 'r) main_task" where
  "waiting (FollowerLoop t) = FollowerSelect t"
| "waiting (CandidateLoop t) = CandidateSelect t"
| "waiting (LeaderLoop t) = LeaderSelect t"
| "waiting M = M"

lemma continuation_cases:
  "continuation now t =
     (if deadline t < now then Panicked DurationUnderflow
      else Ok (now + (to_current_interval t - (now - to_start t))))"
  by (auto simp: continuation_def get_remaining_def get_elapsed_def deadline_def)

lemma put_ended:
  "in_vote_session v put (Ended n) \<Longrightarrow> \<exists>n'. put v' = Ended n'"
  "in_replication_session w putr (Ended n) \<Longrightarrow> \<exists>n'. putr w' = Ended n'"
  by (auto simp: in_vote_session_def in_replication_session_def)

lemma ended_step: "node_step pr ops gen_range (Ended n) l M' \<Longrightarrow> votes_of l = [] \<and> (\<exists>n'. M' = Ended n')"
  by (erule node_step.cases) (auto dest: put_ended)

lemma ended_run: "node_run pr ops gen_range keep (Ended n) vs M' \<Longrightarrow> vs = [] \<and> (\<exists>n'. M' = Ended n')"
  by (induction rule: node_run.induct) (auto dest: ended_step)

text \<open>
  C39. A turn of any role's loop - follower, candidate with its two timers, leader - that begins after the
  deadline of one of the timers it waits for panics, because the remaining time is computed by
  subtracting a longer duration from a shorter one, and that is the end of the node: in no run from
  there does its main loop come back or the node vote again. A turn begun in time goes to wait in its
  \<open>select!\<close>.
\<close>

theorem late_turn_panics:
  assumes "loop_timers M = Some ts"
  shows "if \<exists>t \<in> set ts. deadline t < now
    then main_turn pr ops gen_range now b M = ([], Ended (main_node M)) \<and>
      (\<forall>keep vs M'. node_run pr ops gen_range keep (snd (main_turn pr ops gen_range now b M)) vs M' \<longrightarrow>
         vs = [] \<and> (\<exists>n. M' = Ended n))
    else main_turn pr ops gen_range now b M = ([], waiting M)"
proof -
  have turn: "main_turn pr ops gen_range now b M =
      (if \<exists>t \<in> set ts. deadline t < now then ([], Ended (main_node M)) else ([], waiting M))"
    using assms
    by (cases M) (auto simp: follower_enter_def candidate_enter_def leader_enter_def continuation_cases ct_node_def
        lt_node_def split: if_splits)
  show ?thesis
  proof (cases "\<exists>t \<in> set ts. deadline t < now")
    case True
    with turn have "main_turn pr ops gen_range now b M = ([], Ended (main_node M))" by (simp only: if_True)
    then show ?thesis using True by (simp add: ended_run)
  qed (simp add: turn)
qed

definition sample_follower_task :: "(nat memory_state, nat) follower_task" where
  "sample_follower_task = \<lparr>ft_node = sample_node 2 (sample_state 1 []),
     ft_election_timeout = \<lparr>to_duration = Range 150 300, to_start = 0, to_current_interval = 150000000\<rparr>\<rparr>"

definition sample_leader_task :: "(nat memory_state, nat) leader_task" where
  "sample_leader_task = \<lparr>lt_session = sample_session [(2, (2, None)), (3, (2, None))],
     lt_heartbeat_timeout = timeout_start 0 50, lt_heartbeat_tasks = [], lt_standby_started = True,
     lt_stop_signalled = False\<rparr>"

theorem late_turn_panics_witness:
  "main_turn Checked memory_ops low_end 200000001 OnRpc (CandidateLoop (sample_candidate 1 (sample_state 1 []))) =
     ([], Ended (ct_node (sample_candidate 1 (sample_state 1 [])))) \<and>
   (\<nexists>M'. node_run Checked memory_ops low_end any_step (Ended (ct_node (sample_candidate 1 (sample_state 1 [])))) [(2, 3)] M')"
proof -
  let ?t = "sample_candidate 1 (sample_state 1 [])"
  have timers: "loop_timers (CandidateLoop ?t) = Some [ct_retry_timeout ?t, ct_election_timeout ?t]"
    by (simp add: sample_candidate_def ct_node_def is_candidate_state_def vote_session_initialize_def node_change_defs)
  have late: "\<exists>t \<in> set [ct_retry_timeout ?t, ct_election_timeout ?t]. deadline t < 200000001"
    by (simp add: sample_candidate_def deadline_def)
  from late_turn_panics [OF timers, of 200000001 Checked memory_ops low_end OnRpc, unfolded if_P [OF late]]
  show ?thesis by (elim conjE) (simp only: main_node.simps snd_conv, blast)
qed

section \<open>Client requests\<close>

text \<open>
  C40. A leader appends a client's request to its log, as one entry of its present term, and
  never answers it: the oldest waiting request is taken, its response channel is dropped, and
  the commit index stays as it is.
\<close>

theorem leader_appends_and_never_answers:
  assumes store: "raft_log ops log_of base"
    and run: "leader_branch ops gen_range now OnClientRequest t = (Ok reply, t')"
  shows "\<exists>request tx rest. ch_queue (in_client_request (nd_channels (lt_node t))) = ClientRequest request tx # rest \<and>
    log_of (nd_state (lt_node t')) =
      log_of (nd_state (lt_node t)) @
        [\<lparr>le_term = nd_current_term (lt_node t), le_command = ClientCommand request\<rparr>] \<and>
    get_last_commit_index ops (nd_state (lt_node t')) = get_last_commit_index ops (nd_state (lt_node t)) \<and>
    nd_current_term (lt_node t') = nd_current_term (lt_node t) \<and> reply = NoReply"
proof -
  from run have "client_append_branch ops (lt_node t) = (Ok reply, lt_node t')"
    by (auto simp: leader_branch_def on_lt_node_def on_rs_node_def zoom_c_def lt_node_def
        split: prod.splits)
  then obtain req tx ms st where q: "ch_queue (in_client_request (nd_channels (lt_node t))) = ClientRequest req tx # ms"
    and app: "append_entries ops [\<lparr>le_term = nd_current_term (lt_node t), le_command = ClientCommand req\<rparr>]
        (nd_state (lt_node t)) = (Ok (), st)"
    and n': "lt_node t' = (take_client (lt_node t))\<lparr>nd_state := st\<rparr>" and r: "reply = NoReply"
    by (rule client_append_run)
  from raft_log.append_law [OF store app] show ?thesis
    unfolding n' using q r by simp
qed

definition request_to_leader :: "(nat memory_state, nat) leader_task" where
  "request_to_leader = lt_put_node (sample_leader_node\<lparr>nd_channels := create_channels
     \<lparr>in_client_request := unbounded_channel\<lparr>ch_queue := [ClientRequest 9 Alive]\<rparr>\<rparr>\<rparr>) sample_leader_task"

lemma request_to_leader_run:
  "fst (leader_branch memory_ops low_end 0 OnClientRequest request_to_leader) = Ok (NoReply :: unit reply)"
  by (simp add: leader_branch_def client_append_branch_def request_to_leader_def lt_put_node_def
      on_lt_node_def on_rs_node_def recv_some_def on_in_client_def channel_recv_def bind_c_def
      outcome_simps unbounded_channel_def on_state_def memory_defs Let_def)

theorem leader_appends_and_never_answers_witness:
  "ms_entries (nd_state (lt_node (snd (leader_branch memory_ops low_end 0 OnClientRequest request_to_leader
      :: unit reply outcome \<times> _)))) =
   ms_entries (nd_state sample_leader_node) @ [\<lparr>le_term = 2, le_command = ClientCommand 9\<rparr>]"
proof -
  have "leader_branch memory_ops low_end 0 OnClientRequest request_to_leader =
      (Ok (NoReply :: unit reply), snd (leader_branch memory_ops low_end 0 OnClientRequest request_to_leader
        :: unit reply outcome \<times> _))"
    using request_to_leader_run by (metis prod.collapse)
  from leader_appends_and_never_answers [OF memory.raft_log_axioms this]
  show ?thesis
    by (auto simp: request_to_leader_def lt_put_node_def lt_node_def unbounded_channel_def
        sample_leader_node_def sample_node_def sample_state_def)
qed

text \<open>
  A follower and a candidate answer a client's request without touching their log, store,
  term or role: the answer is a refusal that names the leader the node knows, or says that there
  is none yet.
\<close>

theorem client_is_redirected:
  assumes "follower_branch ops gen_range now OnClientRequest ft = (Ok freply, ft')"
    and "candidate_branch ops gen_range now OnClientRequest ct = (Ok creply, ct')"
  shows "freply = ClientReply (redirect_response (nd_leader_id (ft_node ft))) \<and>
    ft_node ft' = take_client (ft_node ft) \<and>
    creply = ClientReply (redirect_response (nd_leader_id (ct_node ct))) \<and>
    ct_node ct' = take_client (ct_node ct)"
proof -
  from assms have f: "client_redirect_branch (ft_node ft) = (Ok freply, ft_node ft')"
    and c: "client_redirect_branch (ct_node ct) = (Ok creply, ct_node ct')"
    by (auto simp: follower_branch_def candidate_branch_def on_ft_node_def on_ct_node_def
        on_vs_node_def zoom_c_def ct_node_def split: prod.splits)
  from client_redirect_result [OF f] client_redirect_result [OF c] show ?thesis by simp
qed

definition asked_node :: "(nat memory_state, nat) raft_node" where
  "asked_node = (sample_node 2 (sample_state 1 []))\<lparr>nd_leader_id := Some 1, nd_channels := create_channels
     \<lparr>in_client_request := unbounded_channel\<lparr>ch_queue := [ClientRequest 9 Alive]\<rparr>\<rparr>\<rparr>"

lemma asked_node_run:
  "client_redirect_branch asked_node = (Ok (ClientReply (redirect_response (Some 1))), take_client asked_node)"
  by (simp add: client_redirect_branch_def asked_node_def recv_some_def on_in_client_def
      channel_recv_def bind_c_def outcome_simps unbounded_channel_def take_client_def)

theorem client_is_redirected_witness:
  "\<exists>ft'. follower_branch memory_ops low_end 0 OnClientRequest (sample_follower_task\<lparr>ft_node := asked_node\<rparr>)
      = (Ok (ClientReply (redirect_response (Some 1)) :: unit reply), ft') \<and> ft_node ft' = take_client asked_node"
proof -
  let ?ft = "sample_follower_task\<lparr>ft_node := asked_node\<rparr>"
  let ?ct = "ct_put_node asked_node (sample_candidate 1 (sample_state 1 []))"
  have f: "follower_branch memory_ops low_end 0 OnClientRequest ?ft
      = (Ok (ClientReply (redirect_response (Some 1)) :: unit reply), ?ft\<lparr>ft_node := take_client asked_node\<rparr>)"
    by (simp add: follower_branch_def on_ft_node_def zoom_c_def asked_node_run)
  have c: "candidate_branch memory_ops low_end 0 OnClientRequest ?ct
      = (Ok (ClientReply (redirect_response (Some 1)) :: unit reply), ct_put_node (take_client asked_node) ?ct)"
    unfolding candidate_branch_def select_branch.case on_ct_node_def on_vs_node_def zoom_c_def
    by (simp add: asked_node_run ct_put_node_def)
  from client_is_redirected [OF f c] f show ?thesis by auto
qed

section \<open>Channels\<close>

fun send_all :: "'m list \<Rightarrow> ('m channel, unit) comp" where
  "send_all [] = return_c ()"
| "send_all (m # ms) = then_c (channel_send m) (send_all ms)"

fun recv_all :: "nat \<Rightarrow> ('m channel, 'm option list) comp" where
  "recv_all 0 = return_c []"
| "recv_all (Suc k) = bind_c channel_recv (\<lambda>m. bind_c (recv_all k) (\<lambda>ms. return_c (m # ms)))"

lemma recv_all_queue:
  "ch_queue ch = ms @ rest \<Longrightarrow>
     recv_all (length ms) ch = (Ok (map Some ms), ch\<lparr>ch_queue := rest\<rparr>)"
proof (induction ms arbitrary: ch)
  case Nil
  then have "ch\<lparr>ch_queue := rest\<rparr> = ch" by (cases ch) simp
  then show ?case by (simp add: return_c_def)
next
  case (Cons m ms)
  then have "channel_recv ch = (Ok (Some m), ch\<lparr>ch_queue := ms @ rest\<rparr>)" by (simp add: channel_recv_def)
  with Cons.IH [of "ch\<lparr>ch_queue := ms @ rest\<rparr>"] show ?case by (simp add: outcome_simps)
qed

lemma send_all_queue:
  assumes "ch_receiver ch = Alive" and "case ch_capacity ch of None \<Rightarrow> True | Some n \<Rightarrow> length (ch_queue ch) + length ms \<le> n"
  shows "send_all ms ch = (Ok (), ch\<lparr>ch_queue := ch_queue ch @ ms\<rparr>)"
  using assms
proof (induction ms arbitrary: ch)
  case (Cons m ms)
  then have "channel_send m ch = (Ok (), ch\<lparr>ch_queue := ch_queue ch @ [m]\<rparr>)"
    by (auto simp: channel_send_def channel_full_def split: option.splits)
  with Cons.IH [of "ch\<lparr>ch_queue := ch_queue ch @ [m]\<rparr>"] Cons.prems show ?case
    by (auto simp: then_c_def bind_c_def split: option.splits)
qed (simp add: return_c_def)

text \<open>
  What is sent on a channel that has room comes out once and in order, behind what was
  already in it: the messages sent are the last ones received when the queue is emptied.
\<close>

theorem channel_round_trip:
  assumes "ch_receiver ch = Alive"
    and "case ch_capacity ch of None \<Rightarrow> True | Some n \<Rightarrow> length (ch_queue ch) + length ms \<le> n"
  shows "then_c (send_all ms) (recv_all (length (ch_queue ch) + length ms)) ch =
    (Ok (map Some (ch_queue ch @ ms)), ch\<lparr>ch_queue := []\<rparr>)"
proof -
  have "recv_all (length (ch_queue ch @ ms)) (ch\<lparr>ch_queue := ch_queue ch @ ms\<rparr>) =
      (Ok (map Some (ch_queue ch @ ms)), ch\<lparr>ch_queue := []\<rparr>)"
    by (subst recv_all_queue [where rest = "[]"]) simp_all
  with send_all_queue [OF assms] show ?thesis by (simp add: then_c_def bind_c_def)
qed

theorem channel_round_trip_witness:
  "then_c (send_all [()]) (recv_all 1) (shutdown_ch create_channels) =
     (Ok [Some ()], (shutdown_ch create_channels)\<lparr>ch_queue := []\<rparr>)"
  using channel_round_trip [of "shutdown_ch create_channels" "[()]"]
  by (simp add: create_channels_def bounded_channel_def)

end
