(* ===== verification/Commit_Bound.thy ===== *)
theory Commit_Bound
  imports Node_Relations Lifecycle
begin

text \<open>
  The commit indexes of a whole system: nodes that exchange \<open>AppendEntries\<close> requests over any
  network that invents none, whatever else happens to them. No step of the code moves a commit
  index above all that are there: the standby task of a leader, which should, cannot get past its
  own lock, and a follower only takes over what a leader sends.
\<close>

section \<open>What a node sends and is sent\<close>

definition appends_of :: "'r peer_rpc list \<Rightarrow> 'r append_entries_request set" where
  "appends_of ms = {req. \<exists>tx. AppendEntries req tx \<in> set ms}"

definition appends_in :: "('s, 'r) raft_node \<Rightarrow> 'r append_entries_request set" where
  "appends_in n = appends_of (ch_queue (in_rpc (nd_channels n)))"

definition appends_out :: "('s, 'r) raft_node \<Rightarrow> 'r append_entries_request set" where
  "appends_out n = appends_of (map snd (ch_queue (out_rpc (nd_channels n))))"

definition commit_bounded :: "('s, 'r) state_ops \<Rightarrow> u64 \<Rightarrow> ('s, 'r) raft_node \<Rightarrow> bool" where
  "commit_bounded ops c n \<longleftrightarrow>
     get_last_commit_index ops (nd_state n) \<le> c \<and>
     (\<forall>req \<in> appends_in n \<union> appends_out n. ae_last_commit_index req \<le> c)"

definition bound_kept :: "('s, 'r) state_ops \<Rightarrow> u64 \<Rightarrow> ('s, 'r) raft_node \<Rightarrow> ('s, 'r) raft_node \<Rightarrow> bool" where
  "bound_kept ops c n n' \<longleftrightarrow> (commit_bounded ops c n \<longrightarrow> commit_bounded ops c n')"

lemmas bound_defs = bound_kept_def commit_bounded_def appends_in_def appends_out_def appends_of_def

lemma receive_bounded:
  "bound_kept ops c n (snd (on_in_rpc channel_recv n))" "bound_kept ops c n (snd (on_in_client channel_recv n))"
  by (auto simp: bound_defs on_in_rpc_def on_in_client_def zoom_c_def channel_recv_def split: list.splits)

lemma send_bounded:
  "bound_kept ops c n (snd (emit_request_vote ops peer n))"
  "ae_last_commit_index req = get_last_commit_index ops (nd_state n) \<Longrightarrow>
     bound_kept ops c n (snd (emit_append_entries req peer n))"
  by (auto simp: bound_defs emit_request_vote_def emit_append_entries_def on_out_rpc_def zoom_c_def channel_send_def
      bind_c_def gets_c_def split: receiver.splits)

text \<open>All that a node does but the handling of an append request keeps the bound.\<close>

sublocale steady_commit \<subseteq> bound: kept_by_tasks ops "bound_kept ops c" for c
proof
  show "reflp (bound_kept ops c)" "transp (bound_kept ops c)"
    by (auto simp: bound_kept_def intro!: reflpI transpI)
qed (rule receive_bounded send_bounded | assumption |
    simp add: bound_defs append_commit remove_commit term_commit vote_commit)+

context steady_commit
begin

lemma commit_write_bounded:
  assumes "i \<le> c"
  shows "guarantees (bound_kept ops c) (on_state (set_last_commit_index ops i))"
proof (rule guaranteesI)
  fix n :: "('s, 'r) raft_node"
  obtain r s' where run: "set_last_commit_index ops i (nd_state n) = (r, s')" by force
  with commit_commit [of i "nd_state n"] assms
  have "get_last_commit_index ops s' \<le> c" if "get_last_commit_index ops (nd_state n) \<le> c"
    using that by auto
  with run show "bound_kept ops c n (snd (on_state (set_last_commit_index ops i) n))"
    by (simp add: bound_defs on_state_run)
qed

lemma append_handler_bounded:
  assumes "ae_last_commit_index req \<le> c"
  shows "guarantees (bound_kept ops c) (respond_to_append_entries ops now req tx)"
proof -
  have "min (ae_last_commit_index req) l \<le> c" for l
    using assms by (rule min.coboundedI1)
  then show ?thesis
    unfolding respond_to_append_entries_def Let_def
    by (intro guaranteesI)
      (simp, intro impI conjI guarantees_then_at [OF bound.rel_trans] bound.keeps_rules bound.keeps_writes
        bound.keeps_updates commit_write_bounded; simp)
qed

lemma rpc_bounded: "bound_kept ops c n (snd (rpc_branch ops now n :: 'p reply outcome \<times> _))"
proof (cases "ch_queue (in_rpc (nd_channels n))")
  case (Cons m ms)
  let ?n = "n\<lparr>nd_channels := (nd_channels n)\<lparr>in_rpc := (in_rpc (nd_channels n))\<lparr>ch_queue := ms\<rparr>\<rparr>\<rparr>"
  have recv: "recv_some (on_in_rpc channel_recv) n = (Ok m, ?n)"
    using Cons by (simp add: recv_some_def on_in_rpc_def zoom_c_def channel_recv_def bind_c_def return_c_def)
  have taken: "bound_kept ops c n ?n"
    using Cons by (auto simp: bound_defs)
  show ?thesis
  proof (cases m)
    case (AppendEntries req tx)
    have "bound_kept ops c ?n (snd (respond_to_append_entries ops now req tx ?n))" if "commit_bounded ops c n"
    proof (rule guarantees_at, rule append_handler_bounded)
      show "ae_last_commit_index req \<le> c"
        using that Cons AppendEntries by (auto simp: commit_bounded_def appends_in_def appends_of_def)
    qed
    with taken recv AppendEntries show ?thesis
      by (auto simp: rpc_branch_def bind_c_def return_c_def bound_kept_def split: prod.split outcome.split)
  next
    case (RequestVote req tx)
    have "bound_kept ops c ?n (snd (respond_to_request_vote ops req tx ?n))"
      by (rule guarantees_at) (rule bound.keeps_vote_handler)
    with taken recv RequestVote show ?thesis
      by (auto simp: rpc_branch_def bind_c_def return_c_def bound_kept_def split: prod.split outcome.split)
  qed (use taken recv in \<open>simp_all add: rpc_branch_def bind_c_def lift_c_def\<close>)
next
  case Nil
  let ?n' = "snd (rpc_branch ops now n :: 'p reply outcome \<times> _)"
  from Nil have "nd_state ?n' = nd_state n \<and> ch_queue (in_rpc (nd_channels ?n')) = [] \<and>
      out_rpc (nd_channels ?n') = out_rpc (nd_channels n)"
    by (simp add: rpc_branch_def recv_some_def on_in_rpc_def zoom_c_def channel_recv_def bind_c_def lift_c_def)
  with Nil show ?thesis by (simp add: bound_defs)
qed

lemma step_bounded:
  assumes "node_step pr ops gen_range M l M'"
    and "\<And>ch. main_node M' = (main_node M)\<lparr>nd_channels := ch\<rparr> \<Longrightarrow> l = Outside \<Longrightarrow>
      bound_kept ops c (main_node M) (main_node M')"
  shows "bound_kept ops c (main_node M) (main_node M')"
  using assms by (rule bound.keeps_step [OF _ rpc_bounded])

end

section \<open>The system\<close>

text \<open>
  A step of the system is a step of one node. Beside the nodes it keeps every append request that
  was ever sent; what arrives at a node is one of them, again and again or never, and the outside
  may take requests from a node's queue but put none there.
\<close>

type_synonym ('s, 'r) append_system = "(node_id \<Rightarrow> ('s, 'r) main_task) \<times> 'r append_entries_request set"

inductive system_step ::
    "profile \<Rightarrow> ('s, 'r) state_ops \<Rightarrow> (u64 \<Rightarrow> u64 \<Rightarrow> u64) \<Rightarrow> ('s, 'r) append_system \<Rightarrow> ('s, 'r) append_system \<Rightarrow> bool"
  for pr ops gen_range where
  step: "node_step pr ops gen_range (S i) l M' \<Longrightarrow>
    appends_in (main_node M') \<subseteq> appends_in (main_node (S i)) \<union> sent \<Longrightarrow>
    l = Outside \<longrightarrow> appends_out (main_node M') \<subseteq> appends_out (main_node (S i)) \<Longrightarrow>
    system_step pr ops gen_range (S, sent) (S(i := M'), sent \<union> appends_out (main_node M'))"

definition system_bounded :: "('s, 'r) state_ops \<Rightarrow> u64 \<Rightarrow> ('s, 'r) append_system \<Rightarrow> bool" where
  "system_bounded ops c X \<longleftrightarrow>
     (\<forall>i. commit_bounded ops c (main_node (fst X i))) \<and> (\<forall>req \<in> snd X. ae_last_commit_index req \<le> c)"

lemma system_step_bounded:
  assumes store: "steady_commit ops" and step: "system_step pr ops gen_range X Y" and ok: "system_bounded ops c X"
  shows "system_bounded ops c Y"
  using step
proof cases
  case (step S i l M' sent)
  let ?n = "main_node (S i)"
  have n: "commit_bounded ops c ?n" using ok step(1) by (simp add: system_bounded_def)
  have "bound_kept ops c ?n (main_node M')"
  proof (rule steady_commit.step_bounded [OF store step(3)])
    fix ch assume M': "main_node M' = ?n\<lparr>nd_channels := ch\<rparr>" and l: "l = Outside"
    have "ae_last_commit_index req \<le> c" if "req \<in> appends_in (main_node M') \<union> appends_out (main_node M')" for req
    proof -
      have "req \<in> appends_in ?n \<union> appends_out ?n \<union> sent" using that step(4,5) l by blast
      with ok n step(1) show ?thesis by (auto simp: system_bounded_def commit_bounded_def)
    qed
    with n M' show "bound_kept ops c ?n (main_node M')" by (simp add: bound_kept_def commit_bounded_def)
  qed
  with n have "commit_bounded ops c (main_node M')" by (simp add: bound_kept_def)
  with ok step(1,2) show ?thesis by (auto simp: system_bounded_def commit_bounded_def)
qed

lemma system_run_bounded:
  assumes "steady_commit ops" and "(system_step pr ops gen_range)\<^sup>*\<^sup>* X Y" and "system_bounded ops c X"
  shows "system_bounded ops c Y"
  using assms(2,3) by (induction rule: rtranclp_induct) (auto intro: system_step_bounded [OF assms(1)])

interpretation memory_commit: steady_commit memory_ops
  by (rule memory.steady_commit_axioms)

section \<open>Properties\<close>

text \<open>
  C7. No commit index ever rises above those a system starts with: in every run of any set of nodes
  - with leaders elected, client requests appended, append requests composed, sent, delivered again
  and answered at will - the commit index of every node and the one in every append request stay
  within a bound they kept at the start. A system that starts afresh, with 0, never commits an entry.
\<close>

theorem commit_index_never_rises:
  assumes store: "steady_commit ops"
    and start: "\<forall>i. get_last_commit_index ops (nd_state (main_node (S0 i))) \<le> c"
      "\<forall>i. appends_in (main_node (S0 i)) = {} \<and> appends_out (main_node (S0 i)) = {}"
    and run: "(system_step pr ops gen_range)\<^sup>*\<^sup>* (S0, {}) (S, sent)"
  shows "get_last_commit_index ops (nd_state (main_node (S i))) \<le> c \<and>
    (\<forall>req \<in> sent. ae_last_commit_index req \<le> c)"
proof -
  have "system_bounded ops c (S0, {})" using start by (simp add: system_bounded_def commit_bounded_def)
  from system_run_bounded [OF store run this] show ?thesis
    by (simp add: system_bounded_def commit_bounded_def)
qed

text \<open>A leader with a client's request: the log grows, the commit index does not.\<close>

theorem commit_index_never_rises_witness:
  "\<exists>S sent. (system_step Checked memory_ops low_end)\<^sup>*\<^sup>* (\<lambda>_. LeaderSelect request_to_leader, {}) (S, sent) \<and>
     length (ms_entries (nd_state (main_node (S 1)))) = Suc (length (ms_entries (nd_state sample_leader_node))) \<and>
     ms_commit_index (nd_state (main_node (S 1))) \<le> 1"
proof -
  let ?start = "\<lambda>_ :: node_id. LeaderSelect request_to_leader"
  obtain vs M where turn: "main_turn Checked memory_ops low_end 0 OnClientRequest (LeaderSelect request_to_leader) = (vs, M)"
    by force
  then have M: "length (ms_entries (nd_state (main_node M))) = Suc (length (ms_entries (nd_state sample_leader_node)))"
    "appends_in (main_node M) = {}" "appends_out (main_node M) = {}"
    by (auto simp: timer_ready_def rpc_votes_def rpc_answer_def vote_in_def leader_branch_def client_append_branch_def
        request_to_leader_def lt_put_node_def lt_node_def on_lt_node_def on_rs_node_def recv_some_def on_in_client_def
        channel_recv_def after_branch_def bind_c_def outcome_simps unbounded_channel_def on_state_def memory_defs
        ms_push_all_eq Let_def appends_in_def appends_out_def appends_of_def create_channels_def)
  let ?fin = "?start(1 := M)"
  have "system_step Checked memory_ops low_end (?start, {}) (?fin, {} \<union> appends_out (main_node M))"
    by (rule system_step.step [where S = ?start and i = 1, OF node_step.turn [OF turn]]) (simp_all add: M)
  with M have run: "(system_step Checked memory_ops low_end)\<^sup>*\<^sup>* (?start, {}) (?fin, {})" by auto
  have "get_last_commit_index memory_ops (nd_state (main_node (?start i))) \<le> 1 \<and>
      appends_in (main_node (?start i)) = {} \<and> appends_out (main_node (?start i)) = {}" for i
    by (simp add: request_to_leader_def lt_put_node_def lt_node_def sample_leader_node_def sample_node_def sample_state_def
        appends_in_def appends_out_def appends_of_def create_channels_def unbounded_channel_def)
  with commit_index_never_rises [OF memory.steady_commit_axioms _ _ run, of 1 1] M(1) run show ?thesis
    by (intro exI [of _ ?fin] exI [of _ "{}"]) simp
qed

end
