(* ===== verification/Tasks.thy ===== *)
theory Tasks
  imports Prelude
begin

text \<open>
  Tasks at the granularity at which tokio and the processor may switch between them: a computation
  cut into the accesses to shared data that are atomic, each under its own lock or an atomic
  itself. Between two of them any other task may run. A task is a tree of such accesses: what it
  does next depends on what it read.
\<close>

section \<open>Resumptions\<close>

datatype ('s, 'a) proc =
    Done "'a outcome"
  | Act "'s \<Rightarrow> 's \<times> ('s, 'a) proc"

text \<open>One atomic access.\<close>

definition act :: "('s, 'a) comp \<Rightarrow> ('s, 'a) proc" where
  "act m = Act (\<lambda>s. case m s of (r, s') \<Rightarrow> (s', Done r))"

primrec bind_p :: "('s, 'a) proc \<Rightarrow> ('a \<Rightarrow> ('s, 'b) proc) \<Rightarrow> ('s, 'b) proc" where
  "bind_p (Done r) k =
     (case r of Ok a \<Rightarrow> k a | Err e \<Rightarrow> Done (Err e) | Panicked p \<Rightarrow> Done (Panicked p) | Blocked \<Rightarrow> Done Blocked)"
| "bind_p (Act f) k = Act (map_prod id (\<lambda>p. bind_p p k) \<circ> f)"

definition then_p :: "('s, 'a) proc \<Rightarrow> ('s, 'b) proc \<Rightarrow> ('s, 'b) proc" where
  "then_p p q = bind_p p (\<lambda>_. q)"

text \<open>The task with nothing in between, as a computation.\<close>

primrec run_alone :: "('s, 'a) proc \<Rightarrow> ('s, 'a) comp" where
  "run_alone (Done r) = (\<lambda>s. (r, s))"
| "run_alone (Act f) = (\<lambda>s. case (map_prod id run_alone \<circ> f) s of (s', m) \<Rightarrow> m s')"

lemma run_alone_act [simp]: "run_alone (act m) = m"
  by (simp add: act_def fun_eq_iff split: prod.split)

lemma run_alone_bind [simp]: "run_alone (bind_p p k) = bind_c (run_alone p) (\<lambda>a. run_alone (k a))"
proof (induction p)
  case (Done r)
  show ?case by (cases r) (simp_all add: fun_eq_iff bind_c_def)
next
  case (Act f)
  have "run_alone (bind_p (snd (f s)) k) = bind_c (run_alone (snd (f s))) (\<lambda>a. run_alone (k a))" for s
    by (rule Act) (auto simp: snds.simps)
  then show ?case by (simp add: fun_eq_iff bind_c_def case_prod_beta)
qed

lemma run_alone_then [simp]: "run_alone (then_p p q) = then_c (run_alone p) (run_alone q)"
  by (simp add: then_p_def then_c_def)

lemma run_alone_Done: "run_alone (Done r) = lift_c r"
  by (simp add: fun_eq_iff lift_c_def)

lemma run_alone_if: "run_alone (if b then p else q) = (if b then run_alone p else run_alone q)"
  by simp

lemma bind_c_pure: "bind_c (lift_c (Ok a)) k = k a" "bind_c (gets_c f) l s = l (f s) s"
  by (simp_all add: fun_eq_iff bind_c_def lift_c_def gets_c_def)

text \<open>The rules that read a task as a computation.\<close>

lemmas alone_simps = run_alone_act run_alone_bind run_alone_then run_alone_Done run_alone_if bind_c_pure

section \<open>Tasks beside each other\<close>

text \<open>\<open>keep\<close> is asked of every access, as a relation between the shared state before it and after it.\<close>

inductive par_step ::
    "('s \<Rightarrow> 's \<Rightarrow> bool) \<Rightarrow> 's \<times> ('s, 'a) proc list \<Rightarrow> 's \<times> ('s, 'a) proc list \<Rightarrow> bool"
  for keep where
  access: "i < length ps \<Longrightarrow> ps ! i = Act f \<Longrightarrow> f s = (s', p) \<Longrightarrow> keep s s' \<Longrightarrow>
    par_step keep (s, ps) (s', ps[i := p])"

inductive_cases par_stepE: "par_step keep (s, ps) (s', ps')"

definition par_run ::
    "('s \<Rightarrow> 's \<Rightarrow> bool) \<Rightarrow> 's \<times> ('s, 'a) proc list \<Rightarrow> 's \<times> ('s, 'a) proc list \<Rightarrow> bool" where
  "par_run keep = (par_step keep)\<^sup>*\<^sup>*"

lemma par_run_refl [simp]: "par_run keep X X"
  by (simp add: par_run_def)

lemma par_run_trans: "par_run keep X Y \<Longrightarrow> par_run keep Y Z \<Longrightarrow> par_run keep X Z"
  unfolding par_run_def by (rule rtranclp_trans)

text \<open>A task may run to its end while the others wait.\<close>

lemma par_run_alone:
  assumes "i < length ps" and "ps ! i = p" and "run_alone p s = (r, s')"
  shows "par_run (\<lambda>_ _. True) (s, ps) (s', ps[i := Done r])"
  using assms
proof (induction p arbitrary: s ps)
  case (Done x)
  then have "ps[i := Done r] = ps" "s' = s" by (metis list_update_id prod.inject run_alone.simps(1))+
  then show ?case by simp
next
  case (Act f)
  obtain s1 p1 where f: "f s = (s1, p1)" by force
  have step: "par_step (\<lambda>_ _. True) (s, ps) (s1, ps[i := p1])"
    by (rule par_step.access [OF Act.prems(1,2) f]) simp
  have "par_run (\<lambda>_ _. True) (s1, ps[i := p1]) (s', ps[i := p1, i := Done r])"
  proof (rule Act.IH)
    show "(s1, p1) \<in> range f" using f by (metis rangeI)
    show "p1 \<in> Basic_BNFs.snds (s1, p1)" by (simp add: snds.simps)
    show "run_alone p1 s1 = (r, s')" using Act.prems(3) f by simp
  qed (use Act.prems(1) in simp_all)
  with step show ?case unfolding par_run_def by (auto intro: converse_rtranclp_into_rtranclp)
qed

text \<open>A schedule names, access by access, the task whose turn it is.\<close>

fun par_schedule ::
    "('s \<Rightarrow> 's \<Rightarrow> bool) \<Rightarrow> nat list \<Rightarrow> 's \<times> ('s, 'a) proc list \<Rightarrow> ('s \<times> ('s, 'a) proc list) option" where
  "par_schedule keep [] X = Some X"
| "par_schedule keep (i # is) (s, ps) =
     (if length ps \<le> i then None
      else case ps ! i of
        Done r \<Rightarrow> None
      | Act f \<Rightarrow> (case f s of (s', p) \<Rightarrow>
          if keep s s' then par_schedule keep is (s', ps[i := p]) else None))"

lemma par_schedule_run: "par_schedule keep is X = Some Y \<Longrightarrow> par_run keep X Y"
proof (induction keep "is" X rule: par_schedule.induct)
  case (2 keep i "is" s ps)
  from 2(2) obtain f where f: "i < length ps" "ps ! i = Act f" "keep s (fst (f s))"
    and rest: "par_schedule keep is (fst (f s), ps[i := snd (f s)]) = Some Y"
    by (auto split: if_splits proc.splits prod.splits)
  have "par_step keep (s, ps) (fst (f s), ps[i := snd (f s)])"
    using f by (intro par_step.access [of i ps f]) simp_all
  moreover have "par_run keep (fst (f s), ps[i := snd (f s)]) Y"
    using 2(1) [OF _ f(2) _ _ rest] f by (simp add: surjective_pairing [symmetric])
  ultimately show ?case unfolding par_run_def by (rule converse_rtranclp_into_rtranclp)
qed simp

lemma par_schedule_append:
  "par_schedule keep (is @ js) X = Option.bind (par_schedule keep is X) (par_schedule keep js)"
  by (induction keep "is" X rule: par_schedule.induct) (simp_all split: proc.split prod.split)

text \<open>The next access of a task in view.\<close>

lemma bind_act:
  "bind_p (act m) k = Act (\<lambda>s. case m s of (r, s') \<Rightarrow>
     (s', case r of Ok a \<Rightarrow> k a | Err e \<Rightarrow> Done (Err e) | Panicked p \<Rightarrow> Done (Panicked p) | Blocked \<Rightarrow> Done Blocked))"
  by (simp add: act_def fun_eq_iff split: prod.split)

section \<open>What every access keeps\<close>

inductive keeps_p :: "('s \<Rightarrow> 's \<Rightarrow> bool) \<Rightarrow> ('s, 'a) proc \<Rightarrow> bool" for R where
  ended: "keeps_p R (Done r)"
| going: "(\<And>s. R s (fst (f s))) \<Longrightarrow> (\<And>s. keeps_p R (snd (f s))) \<Longrightarrow> keeps_p R (Act f)"

inductive_simps keeps_p_Act [simp]: "keeps_p R (Act f)"

lemmas keeps_p_Done [simp] = keeps_p.ended

lemma keeps_act: "guarantees R m \<Longrightarrow> keeps_p R (act m)"
  by (auto simp: act_def guarantees_def case_prod_beta)

lemma keeps_bind:
  assumes "keeps_p R p" and "\<And>a. keeps_p R (k a)"
  shows "keeps_p R (bind_p p k)"
  using assms(1)
proof induction
  case (ended r)
  show ?case using assms(2) by (cases r) simp_all
qed simp

lemma keeps_then: "keeps_p R p \<Longrightarrow> keeps_p R q \<Longrightarrow> keeps_p R (then_p p q)"
  by (simp add: then_p_def keeps_bind)

lemma keeps_if:
  "keeps_p R p \<Longrightarrow> keeps_p R q \<Longrightarrow> keeps_p R (if b then p else q)"
  "(\<And>a b. keeps_p R (f a b)) \<Longrightarrow> keeps_p R (case x of (a, b) \<Rightarrow> f a b)"
  by (simp_all split: prod.split)

text \<open>However tasks are interleaved, a preorder that their accesses keep is kept.\<close>

lemma par_keeps:
  assumes "reflp R" and "transp R" and "\<forall>p \<in> set ps. keeps_p R p" and "par_run keep (s, ps) (s', ps')"
  shows "R s s' \<and> (\<forall>p \<in> set ps'. keeps_p R p)"
  using assms(4) unfolding par_run_def
proof (induction rule: rtranclp_induct2)
  case refl
  with assms show ?case by (simp add: reflpD)
next
  case (step s1 ps1 s2 ps2)
  from step(2) obtain i f p where i: "i < length ps1" "ps1 ! i = Act f" "f s1 = (s2, p)" "ps2 = ps1[i := p]"
    by (auto elim: par_stepE)
  with step(3) have "keeps_p R (Act f)" by (metis nth_mem)
  with i(3) have "R s1 s2" "keeps_p R p" by (metis fst_conv keeps_p_Act, metis keeps_p_Act snd_conv)
  with step(3) i(4) assms(2) show ?case
    by (auto dest: transpD set_update_subset_insert [THEN subsetD])
qed

section \<open>One task among others\<close>

text \<open>What one task sees: between its own accesses the shared state moves as \<open>R\<close> allows.\<close>

inductive env_run ::
    "('s \<Rightarrow> 's \<Rightarrow> bool) \<Rightarrow> ('s \<Rightarrow> 's \<Rightarrow> bool) \<Rightarrow> ('s, 'a) proc \<Rightarrow> 's \<Rightarrow> ('s, 'a) proc \<Rightarrow> 's \<Rightarrow> bool"
  for R keep p s where
  start: "env_run R keep p s p s"
| others: "env_run R keep p s p' s1 \<Longrightarrow> R s1 s2 \<Longrightarrow> env_run R keep p s p' s2"
| own: "env_run R keep p s (Act f) s1 \<Longrightarrow> f s1 = (s2, p') \<Longrightarrow> keep s1 s2 \<Longrightarrow> env_run R keep p s p' s2"

text \<open>A task among others that all keep \<open>R\<close> sees no more than that.\<close>

lemma par_env:
  assumes "par_run keep (s, ps) (s', ps')" and "i < length ps"
    and "\<And>j. j < length ps \<Longrightarrow> j \<noteq> i \<Longrightarrow> keeps_p R (ps ! j)"
  shows "length ps' = length ps \<and> (\<forall>j < length ps. j \<noteq> i \<longrightarrow> keeps_p R (ps' ! j)) \<and>
    env_run (\<lambda>s t. R s t \<and> keep s t) keep (ps ! i) s (ps' ! i) s'"
  using assms(1) unfolding par_run_def
proof (induction rule: rtranclp_induct2)
  case refl
  with assms(3) show ?case by (auto intro: env_run.start)
next
  case (step s1 ps1 s2 ps2)
  from step(2) obtain k f p where k: "k < length ps1" "ps1 ! k = Act f" "f s1 = (s2, p)" "ps2 = ps1[k := p]" "keep s1 s2"
    by (auto elim: par_stepE)
  show ?case
  proof (cases "k = i")
    case True
    with step(3) k show ?thesis
      by (auto intro: env_run.own)
  next
    case False
    with step(3) k(1,2) have "keeps_p R (Act f)" by metis
    with k(3) have "R s1 s2" "keeps_p R p" by (metis fst_conv keeps_p_Act, metis keeps_p_Act snd_conv)
    with False step(3) k show ?thesis
      by (auto simp: nth_list_update intro: env_run.others)
  qed
qed

text \<open>What is left of a task that has ended, made an access, or went through a sequence.\<close>

lemma env_run_Done:
  assumes "reflp R" and "transp R" and "env_run R keep (Done r) s p' s'"
  shows "p' = Done r \<and> R s s'"
  using assms(3) by (induction rule: env_run.induct) (use assms(1,2) in \<open>auto dest: reflpD transpD\<close>)

lemma env_run_first:
  assumes "reflp R" and "transp R" and "env_run R keep (Act f) s p' s'"
  shows "p' = Act f \<and> R s s' \<or>
    (\<exists>s1 s2 p1. R s s1 \<and> f s1 = (s2, p1) \<and> keep s1 s2 \<and> env_run R keep p1 s2 p' s')"
  using assms(3)
proof (induction rule: env_run.induct)
  case start
  with assms(1) show ?case by (simp add: reflpD)
next
  case (others p' s1 s2)
  with assms(2) show ?case by (blast intro: env_run.others dest: transpD)
next
  case (own f' s1 s2 p')
  then show ?case by (blast intro: env_run.intros)
qed

lemma env_run_after:
  assumes "env_run R keep p1 s2 q s'" and "transp R" and "R s s1" "f s1 = (s2, p1)" "keep s1 s2"
  shows "env_run R keep (Act f) s q s'"
  using assms(1)
proof (induction rule: env_run.induct)
  case start
  have "env_run R keep (Act f) s (Act f) s1" using env_run.start assms(3) by (rule env_run.others)
  then show ?case by (rule env_run.own) (use assms(4,5) in simp_all)
qed (blast intro: env_run.intros)+

lemma env_run_bind:
  assumes "reflp R" and "transp R" and "env_run R keep (bind_p p k) s (Done (Ok b)) s'"
  shows "\<exists>a s1. env_run R keep p s (Done (Ok a)) s1 \<and> env_run R keep (k a) s1 (Done (Ok b)) s'"
  using assms(3)
proof (induction p arbitrary: s)
  case (Done r)
  show ?case
  proof (cases r)
    case (Ok a)
    with Done show ?thesis by (auto intro: env_run.start)
  qed (use Done env_run_Done [OF assms(1,2)] in fastforce)+
next
  case (Act f)
  let ?g = "map_prod id (\<lambda>p. bind_p p k) \<circ> f"
  from Act.prems have "env_run R keep (Act ?g) s (Done (Ok b)) s'" by simp
  from env_run_first [OF assms(1,2) this] obtain s1 s2 p1 where first: "R s s1" "f s1 = (s2, p1)" "keep s1 s2"
    and rest: "env_run R keep (bind_p p1 k) s2 (Done (Ok b)) s'"
    by (fastforce simp: map_prod_def split: prod.splits)
  have "(s2, p1) \<in> range f" "p1 \<in> Basic_BNFs.snds (s2, p1)" using first(2) by (metis rangeI, simp add: snds.simps)
  from Act.IH [OF this rest] obtain a s3 where
    "env_run R keep p1 s2 (Done (Ok a)) s3" "env_run R keep (k a) s3 (Done (Ok b)) s'" by blast
  moreover from this(1) have "env_run R keep (Act f) s (Done (Ok a)) s3"
    by (rule env_run_after) (use assms(2) first in simp_all)
  ultimately show ?case by blast
qed

lemma env_run_act:
  assumes "reflp R" and "transp R" and "env_run R keep (act m) s (Done r) s'"
  shows "\<exists>s1 s2. R s s1 \<and> m s1 = (r, s2) \<and> keep s1 s2 \<and> R s2 s'"
proof -
  let ?f = "\<lambda>s. case m s of (r, s') \<Rightarrow> (s', Done r)"
  obtain s1 s2 p1 where first: "R s s1" "?f s1 = (s2, p1)" "keep s1 s2" and rest: "env_run R keep p1 s2 (Done r) s'"
    using env_run_first [OF assms(1,2) assms(3) [unfolded act_def]] by blast
  obtain r1 where m: "m s1 = (r1, s2)" and p1: "p1 = Done r1" using first(2) by (auto split: prod.splits)
  from env_run_Done [OF assms(1,2) rest [unfolded p1]] have "r1 = r" "R s2 s'" by auto
  with first m show ?thesis by blast
qed

lemma env_run_before:
  assumes "env_run R keep p s1 q s'" and "transp R" and "R s s1"
  shows "env_run R keep p s q s'"
  using assms(1)
proof (induction rule: env_run.induct)
  case start
  show ?case using env_run.start assms(3) by (rule env_run.others)
qed (blast intro: env_run.intros)+

text \<open>The two ways a task goes on: from a read, and from a write.\<close>

lemma env_read:
  assumes "reflp R" and "transp R" and "env_run R keep (bind_p (act (gets_c f)) k) s (Done (Ok b)) s'"
  obtains s1 where "R s s1" "env_run R keep (k (f s1)) s1 (Done (Ok b)) s'"
proof -
  obtain a s0 where "env_run R keep (act (gets_c f)) s (Done (Ok a)) s0" and rest: "env_run R keep (k a) s0 (Done (Ok b)) s'"
    using env_run_bind [OF assms] by blast
  from env_run_act [OF assms(1,2) this(1)] obtain s1 where "R s s1" "a = f s1" "R s1 s0" by (auto simp: gets_c_def)
  with env_run_before [OF rest assms(2)] show thesis by (auto intro: that)
qed

lemma env_write:
  assumes "reflp R" and "transp R" and "env_run R keep (bind_p (act m) k) s (Done (Ok b)) s'"
  obtains s1 a s2 where "R s s1" "m s1 = (Ok a, s2)" "keep s1 s2" "env_run R keep (k a) s2 (Done (Ok b)) s'"
proof -
  obtain a s0 where "env_run R keep (act m) s (Done (Ok a)) s0" and rest: "env_run R keep (k a) s0 (Done (Ok b)) s'"
    using env_run_bind [OF assms] by blast
  from env_run_act [OF assms(1,2) this(1)] obtain s1 s2 where "R s s1" "m s1 = (Ok a, s2)" "keep s1 s2" "R s2 s0" by blast
  with env_run_before [OF rest assms(2)] show thesis by (auto intro: that)
qed

text \<open>A task that keeps \<open>R\<close> itself, among others that do.\<close>

lemma env_run_keeps:
  assumes "reflp R" and "transp R" and "reflp keep" and "transp keep" and "keeps_p R p"
    and "env_run (\<lambda>s t. R s t \<and> keep s t) keep p s p' s'"
  shows "R s s' \<and> keep s s' \<and> keeps_p R p'"
  using assms(6)
proof (induction rule: env_run.induct)
  case start
  show ?case using assms(1,3,5) by (simp add: reflpD)
next
  case (others p' s1 s2)
  with assms(2,4) show ?case by (blast dest: transpD)
next
  case (own f s1 s2 p')
  then have "R s1 s2" "keeps_p R p'" by (metis fst_conv keeps_p_Act, metis keeps_p_Act snd_conv)
  with own assms(2,4) show ?case by (blast dest: transpD)
qed

section \<open>Others that do not matter\<close>

text \<open>A task that goes the same way from states that \<open>E\<close> relates, and keeps them related.\<close>

inductive follows_p :: "('s \<Rightarrow> 's \<Rightarrow> bool) \<Rightarrow> ('s, 'a) proc \<Rightarrow> bool" for E where
  ended: "follows_p E (Done r)"
| going: "(\<And>s t. E s t \<Longrightarrow> E (fst (f s)) (fst (f t)) \<and> snd (f s) = snd (f t)) \<Longrightarrow>
    (\<And>s. follows_p E (snd (f s))) \<Longrightarrow> follows_p E (Act f)"

inductive_simps follows_p_Act: "follows_p E (Act f)"

lemmas follows_p_Done [simp] = follows_p.ended

definition agrees :: "('s \<Rightarrow> 's \<Rightarrow> bool) \<Rightarrow> ('s, 'a) comp \<Rightarrow> bool" where
  "agrees E m \<longleftrightarrow> (\<forall>s t. E s t \<longrightarrow> fst (m s) = fst (m t) \<and> E (snd (m s)) (snd (m t)))"

lemma follows_act: "agrees E m \<Longrightarrow> follows_p E (act m)"
  by (auto simp: agrees_def act_def follows_p_Act case_prod_beta)

lemma follows_bind:
  assumes "follows_p E p" and "\<And>a. follows_p E (k a)"
  shows "follows_p E (bind_p p k)"
  using assms(1)
proof induction
  case (ended r)
  show ?case using assms(2) by (cases r) simp_all
qed (simp add: follows_p_Act)

lemma follows_then: "follows_p E p \<Longrightarrow> follows_p E q \<Longrightarrow> follows_p E (then_p p q)"
  by (simp add: then_p_def follows_bind)

lemma follows_if:
  "follows_p E p \<Longrightarrow> follows_p E q \<Longrightarrow> follows_p E (if b then p else q)"
  "(\<And>a b. follows_p E (f a b)) \<Longrightarrow> follows_p E (case x of (a, b) \<Rightarrow> f a b)"
  by (simp_all split: prod.split)

text \<open>
  If the others stay within \<open>E\<close>, the task ends among them as it ends alone, in a state that \<open>E\<close> relates
  to the one it leaves alone.
\<close>

lemma env_run_as_alone:
  assumes "reflp E" and "transp E" and "follows_p E p" and "env_run E keep p s (Done r) s'" and "E t s"
  shows "\<exists>t'. run_alone p t = (r, t') \<and> E t' s'"
  using assms(3-5)
proof (induction arbitrary: s t)
  case (ended x)
  with env_run_Done [OF assms(1,2) ended(1)] show ?case by (auto dest: transpD [OF assms(2)])
next
  case (going f)
  from env_run_first [OF assms(1,2) going.prems(1)] obtain s1 s2 p1 where
    "E s s1" and f: "f s1 = (s2, p1)" and rest: "env_run E keep p1 s2 (Done r) s'" by blast
  then have "E t s1" using going.prems(2) by (blast dest: transpD [OF assms(2)])
  with going.hyps(1) f have step: "E (fst (f t)) s2" "snd (f t) = p1" by (metis fst_conv snd_conv)+
  from going.IH [of s1] f rest step(1) obtain t' where "run_alone p1 (fst (f t)) = (r, t')" "E t' s'" by auto
  with step(2) show ?case by (auto simp: case_prod_beta)
qed

lemma env_run_weaken: "env_run R keep p s p' s' \<Longrightarrow> (\<And>s t. R s t \<Longrightarrow> R' s t) \<Longrightarrow> env_run R' keep p s p' s'"
  by (induction rule: env_run.induct) (blast intro: env_run.intros)+

end
