(* ===== verification/Preemption.thy ===== *)
theory Preemption
  imports Tasks Node_Relations
begin

text \<open>
  The node's handlers (\<open>role/common.rs\<close>, \<open>node.rs\<close>) cut into the accesses between which another
  task of the node may run: one per lock taken and per operation on the atomic term. Run alone they
  are the handlers of the other theories; beside each other they do more. What every access keeps no
  interleaving breaks, and neither does it the rule of one vote per term, as long as no access
  lowers the term; and tasks that only ask peers for their votes do not disturb the main loop. Theory
  Races holds the properties.
\<close>

section \<open>The handlers in single accesses\<close>

type_synonym ('s, 'r, 'a) node_proc = "(('s, 'r) raft_node, 'a) proc"

definition update_current_term_p :: "('s, 'r) state_ops \<Rightarrow> u64 \<Rightarrow> ('s, 'r, unit) node_proc" where
  "update_current_term_p ops t =
     then_p (act (on_state (store_current_term ops t)))
            (act (modify_c (\<lambda>n. n\<lparr>nd_current_term := t\<rparr>)))"

definition update_current_term_and_voted_for_p ::
    "('s, 'r) state_ops \<Rightarrow> u64 \<Rightarrow> node_id \<Rightarrow> ('s, 'r, unit) node_proc" where
  "update_current_term_and_voted_for_p ops t candidate =
     then_p (act (on_state (store_current_term ops t)))
    (then_p (act (on_state (store_voted_for ops candidate)))
    (then_p (act (modify_c (\<lambda>n. n\<lparr>nd_current_term := t\<rparr>)))
            (act (modify_c (\<lambda>n. n\<lparr>nd_voted_for := Some candidate\<rparr>)))))"

definition consider_vote_p ::
    "('s, 'r) state_ops \<Rightarrow> request_vote_request \<Rightarrow> receiver \<Rightarrow> u64 \<Rightarrow> node_id
       \<Rightarrow> ('s, 'r, request_vote_response) node_proc" where
  "consider_vote_p ops req response_tx our_term our_id =
     then_p (update_current_term_and_voted_for_p ops (rv_term req) (rv_candidate_id req))
    (then_p (act (modify_c change_to_follower_state))
    (bind_p (act (gets_c (\<lambda>n. get_last_index ops (nd_state n)))) (\<lambda>our_last_log_index.
     bind_p (act (gets_c (\<lambda>n. get_last_term ops (nd_state n)))) (\<lambda>our_last_log_term.
     if rv_last_log_term req < our_last_log_term
        \<or> our_last_log_term = rv_last_log_term req \<and> rv_last_log_index req < our_last_log_index
     then Done (send_response response_tx
            \<lparr>rvr_term = our_term, rvr_vote_granted = False, rvr_id = our_id, rvr_reason = RvIncompleteLog\<rparr>)
     else Done (send_response response_tx
            \<lparr>rvr_term = our_term, rvr_vote_granted = True, rvr_id = our_id, rvr_reason = RvOk\<rparr>)))))"

definition request_vote_p ::
    "('s, 'r) state_ops \<Rightarrow> request_vote_request \<Rightarrow> receiver \<Rightarrow> ('s, 'r, request_vote_response) node_proc" where
  "request_vote_p ops req response_tx =
     bind_p (act (gets_c nd_current_term)) (\<lambda>our_term.
     bind_p (act (gets_c nd_id)) (\<lambda>our_id.
     bind_p (if our_term = rv_term req then act (gets_c (\<lambda>n. nd_voted_for n \<noteq> None)) else Done (Ok False)) (\<lambda>voted.
     if voted then Done (send_response response_tx
            \<lparr>rvr_term = our_term, rvr_vote_granted = False, rvr_id = our_id, rvr_reason = RvAlreadyVoted\<rparr>)
     else if rv_term req < our_term then Done (send_response response_tx
            \<lparr>rvr_term = our_term, rvr_vote_granted = False, rvr_id = our_id, rvr_reason = RvStaleTerm\<rparr>)
     else consider_vote_p ops req response_tx our_term our_id)))"

definition append_entries_p ::
    "('s, 'r) state_ops \<Rightarrow> instant \<Rightarrow> 'r append_entries_request \<Rightarrow> receiver
       \<Rightarrow> ('s, 'r, append_entries_response) node_proc" where
  "append_entries_p ops now req response_tx =
     bind_p (act (gets_c nd_current_term)) (\<lambda>our_term.
     bind_p (act (gets_c nd_id)) (\<lambda>our_id.
     bind_p (act (gets_c (\<lambda>n. get_last_index ops (nd_state n)))) (\<lambda>our_last_log_index.
     let len = of_nat (length (ae_entries req));
         failure = (\<lambda>reason. Done (send_response response_tx
           \<lparr>aer_term = our_term, aer_success = False, aer_id = our_id, aer_len = 0, aer_reason = reason\<rparr>)) in
     if ae_term req < our_term then failure AeStaleTerm
     else
       then_p (update_current_term_p ops (ae_term req))
      (then_p (act (modify_c (update_last_heard_from_leader now)))
      (then_p (act (modify_c (update_leader_id (ae_leader_id req))))
      (then_p (act (modify_c change_to_follower_state))
      (if our_last_log_index < ae_prev_log_index req then failure AeLogMismatch
       else
         bind_p (act (gets_c (\<lambda>n. get_entry ops (nd_state n) (ae_prev_log_index req)))) (\<lambda>entry.
         if (case entry of None \<Rightarrow> False | Some e \<Rightarrow> le_term e \<noteq> ae_prev_log_term req) then failure AeLogMismatch
         else
           then_p (act (on_state (remove_entries_after ops (ae_prev_log_index req))))
          (then_p (act (on_state (append_entries ops (ae_entries req))))
          (bind_p (act (gets_c (\<lambda>n. get_last_index ops (nd_state n)))) (\<lambda>our_last_log_index.
           then_p (act (on_state (set_last_commit_index ops (min (ae_last_commit_index req) our_last_log_index))))
                  (Done (send_response response_tx
                     \<lparr>aer_term = our_term, aer_success = True, aer_id = our_id, aer_len = len, aer_reason = AeOk\<rparr>)))))))))))))"

text \<open>A session's reaction to an answer that makes it step down.\<close>

definition step_down_p :: "('s, 'r) state_ops \<Rightarrow> u64 \<Rightarrow> ('s, 'r, unit) node_proc" where
  "step_down_p ops t = then_p (update_current_term_p ops t) (act (modify_c change_to_follower_state))"

text \<open>Opening a session, and the term the \<open>fetch_add\<close> left.\<close>

definition stand_p :: "('s, 'r, u64) node_proc" where
  "stand_p =
     bind_p (act (\<lambda>n. (Ok (nd_current_term n + 1), increment_term n))) (\<lambda>t.
     then_p (act (modify_c vote_for_self)) (Done (Ok t)))"

text \<open>Composing a vote request and sending it.\<close>

definition send_request_vote_p :: "('s, 'r) state_ops \<Rightarrow> node_id \<Rightarrow> ('s, 'r, unit) node_proc" where
  "send_request_vote_p ops peer =
     bind_p (act (gets_c (\<lambda>n. get_last_index ops (nd_state n)))) (\<lambda>last_log_index.
     bind_p (act (gets_c (\<lambda>n. get_last_term ops (nd_state n)))) (\<lambda>last_log_term.
     bind_p (act (gets_c (\<lambda>n. (nd_current_term n, nd_id n)))) (\<lambda>(term', id').
     act (on_out_rpc (channel_send (peer, RequestVote
       \<lparr>rv_term = term', rv_candidate_id = id', rv_last_log_index = last_log_index, rv_last_log_term = last_log_term\<rparr>
       Alive))))))"

section \<open>Run alone\<close>

lemma updates_alone:
  "run_alone (update_current_term_p ops t) = update_current_term ops t"
  "run_alone (update_current_term_and_voted_for_p ops t c) = update_current_term_and_voted_for ops t c"
  by (simp_all add: update_current_term_p_def update_current_term_and_voted_for_p_def update_current_term_def
      update_current_term_and_voted_for_def)

lemma request_vote_alone: "run_alone (request_vote_p ops req tx) = respond_to_request_vote ops req tx"
proof
  fix n
  show "run_alone (request_vote_p ops req tx) n = respond_to_request_vote ops req tx n"
    by (simp add: request_vote_p_def consider_vote_p_def respond_to_request_vote_def Let_def updates_alone alone_simps
        del: run_alone.simps cong: if_cong)
      (auto simp: lift_c_def alone_simps)
qed

lemma append_entries_alone: "run_alone (append_entries_p ops now req tx) = respond_to_append_entries ops now req tx"
proof
  fix n
  show "run_alone (append_entries_p ops now req tx) n = respond_to_append_entries ops now req tx n"
    by (simp add: append_entries_p_def respond_to_append_entries_def Let_def updates_alone alone_simps
        del: run_alone.simps cong: if_cong)
      (auto simp: lift_c_def)
qed

lemma stand_alone: "run_alone stand_p n = (Ok (nd_current_term n + 1), vs_node (vote_session_initialize n))"
  by (simp add: stand_p_def outcome_simps bind_c_def vote_session_initialize_def)

lemma send_request_vote_alone: "run_alone (send_request_vote_p ops peer) = emit_request_vote ops peer"
  by (simp add: fun_eq_iff send_request_vote_p_def emit_request_vote_def request_vote_request_of_def outcome_simps bind_c_def)

section \<open>Jobs\<close>

text \<open>
  What runs on a node: the main loop answers messages, takes client requests and opens sessions, one
  after the other; the session's tasks ask peers and step down beside it. A job ends with the votes
  the node cast in it.
\<close>

datatype 'r job =
    HandleVote request_vote_request receiver
  | HandleAppend instant "'r append_entries_request" receiver
  | OpenSession
  | TakeClient 'r
  | SendRequest node_id
  | FallBack u64

definition client_append_p :: "('s, 'r) state_ops \<Rightarrow> 'r \<Rightarrow> ('s, 'r, unit) node_proc" where
  "client_append_p ops request =
     bind_p (act (gets_c nd_current_term)) (\<lambda>current_term.
       act (on_state (append_entries ops [\<lparr>le_term = current_term, le_command = ClientCommand request\<rparr>])))"

fun job_p :: "('s, 'r) state_ops \<Rightarrow> 'r job \<Rightarrow> ('s, 'r, vote list) node_proc" where
  "job_p ops (HandleVote req tx) =
     bind_p (request_vote_p ops req tx) (\<lambda>r.
       Done (Ok (if rvr_vote_granted r then [(rv_term req, rv_candidate_id req)] else [])))"
| "job_p ops (HandleAppend now req tx) = then_p (append_entries_p ops now req tx) (Done (Ok []))"
| "job_p ops OpenSession =
     bind_p stand_p (\<lambda>t. bind_p (act (gets_c nd_id)) (\<lambda>i. Done (Ok [(t, i)])))"
| "job_p ops (TakeClient request) = then_p (client_append_p ops request) (Done (Ok []))"
| "job_p ops (SendRequest peer) = then_p (send_request_vote_p ops peer) (Done (Ok []))"
| "job_p ops (FallBack t) = then_p (step_down_p ops t) (Done (Ok []))"

primrec main_p :: "('s, 'r) state_ops \<Rightarrow> 'r job list \<Rightarrow> ('s, 'r, vote list) node_proc" where
  "main_p ops [] = Done (Ok [])"
| "main_p ops (j # js) = bind_p (job_p ops j) (\<lambda>vs. bind_p (main_p ops js) (\<lambda>ws. Done (Ok (vs @ ws))))"

section \<open>What no interleaving breaks\<close>

context kept_by_writes
begin

lemma keeps_send: "guarantees rel (on_out_rpc k)"
  using write_channels by (auto simp: guarantees_def on_out_rpc_def zoom_c_def split: prod.split)

lemma keeps_opening_writes:
  "guarantees rel (\<lambda>n. (Ok (nd_current_term n + 1), increment_term n))" "guarantees rel (modify_c vote_for_self)"
  by (auto simp: guarantees_def modify_c_def increment_term_def vote_for_self_def write_term write_vote)

lemmas keeps_p_rules =
  keeps_bind keeps_then keeps_if keeps_p_Done keeps_act keeps_rules keeps_writes keeps_commit keeps_send
  keeps_opening_writes

lemma keeps_updates_p:
  "keeps_p rel (update_current_term_p ops t)" "keeps_p rel (update_current_term_and_voted_for_p ops t c)"
  "keeps_p rel (step_down_p ops t)"
  unfolding step_down_p_def update_current_term_p_def update_current_term_and_voted_for_p_def
  by (intro keeps_p_rules)+

lemma keeps_handlers_p:
  "keeps_p rel (consider_vote_p ops req tx i j)" "keeps_p rel (request_vote_p ops req tx)"
  "keeps_p rel (append_entries_p ops now areq tx)"
  unfolding request_vote_p_def consider_vote_p_def append_entries_p_def Let_def
  by (intro keeps_p_rules keeps_updates_p)+

lemma keeps_job: "keeps_p rel (job_p ops j)"
  by (cases j; simp only: job_p.simps stand_p_def client_append_p_def send_request_vote_p_def)
    (intro keeps_p_rules keeps_updates_p keeps_handlers_p | simp split: prod.split)+

lemma keeps_main: "keeps_p rel (main_p ops js)"
  by (induction js) (simp_all add: keeps_bind keeps_job)

text \<open>However jobs are interleaved, the node's relation holds across.\<close>

lemma keeps_jobs:
  assumes "par_run keep (n, main_p ops js # map (job_p ops) ts) (n', qs)"
  shows "rel n n'"
  using par_keeps [OF rel_refl rel_trans _ assms] keeps_job keeps_main by auto

end

section \<open>Votes\<close>

definition vote_sticks :: "('s, 'r) raft_node \<Rightarrow> ('s, 'r) raft_node \<Rightarrow> bool" where
  "vote_sticks n n' \<longleftrightarrow> (nd_voted_for n \<noteq> None \<longrightarrow> nd_voted_for n' \<noteq> None)"

interpretation sticky: kept_by_writes ops vote_sticks for ops
  by unfold_locales
    (auto simp: vote_sticks_def on_in_rpc_def on_in_client_def on_out_rpc_def emit_request_vote_def
      emit_append_entries_def outcome_simps bind_c_def intro!: reflpI transpI split: prod.split)

text \<open>What the others may do to the node between two accesses of its main loop.\<close>

abbreviation moves :: "('s, 'r) raft_node \<Rightarrow> ('s, 'r) raft_node \<Rightarrow> bool" where
  "moves n n' \<equiv> vote_sticks n n' \<and> term_kept n n'"

lemma term_kept_preorder: "reflp term_kept" "transp term_kept"
  by (auto simp: term_kept_def intro!: reflpI transpI)

lemma moves_preorder: "reflp moves" "transp moves"
  by (auto simp: vote_sticks_def term_kept_def intro!: reflpI transpI)

lemma moves_trans: "moves a b \<Longrightarrow> moves b c \<Longrightarrow> moves a c"
  using transpD [OF moves_preorder(2)] .

lemmas moving_read = env_read [OF moves_preorder]
lemmas moving_write = env_write [OF moves_preorder]
lemmas moving_bind = env_run_bind [OF moves_preorder]

lemma moving_keeps: "keeps_p vote_sticks p \<Longrightarrow> env_run moves term_kept p n p' n' \<Longrightarrow> moves n n'"
  using env_run_keeps [OF sticky.rel_refl sticky.rel_trans term_kept_preorder] by blast

lemma votes_ok_moves: "votes_ok vs n \<Longrightarrow> moves n n' \<Longrightarrow> votes_ok vs n'"
  by (auto simp: vote_sticks_def term_kept_def intro: votes_ok_moved)

text \<open>A vote is new when its term is, or when it is the present one and none was cast in it.\<close>

lemma votes_ok_new:
  assumes "votes_ok vs n" and "moves n n'" and "nd_current_term n \<le> t"
    and "t = nd_current_term n \<longrightarrow> nd_voted_for n = None" and "t \<le> nd_current_term n'" "nd_voted_for n' \<noteq> None"
  shows "votes_ok (vs @ [(t, c)]) n'"
proof -
  have "t \<notin> fst ` set vs" using assms(1,3,4) unfolding votes_ok_def by (metis order.antisym)
  with votes_ok_moves [OF assms(1,2)] assms(5,6) show ?thesis unfolding votes_ok_def by auto
qed

lemma moving_update:
  assumes "env_run moves term_kept (update_current_term_and_voted_for_p ops t c) n (Done (Ok u)) n'"
  shows "t \<le> nd_current_term n'" "nd_voted_for n' \<noteq> None"
proof -
  from assms obtain n1 n2 where "env_run moves term_kept
      (then_p (act (modify_c (\<lambda>n. n\<lparr>nd_current_term := t\<rparr>))) (act (modify_c (\<lambda>n. n\<lparr>nd_voted_for := Some c\<rparr>)))) n1 (Done (Ok u)) n'"
    unfolding update_current_term_and_voted_for_p_def then_p_def by (blast elim: moving_write)
  then obtain n2 n3 where "n3 = n2\<lparr>nd_current_term := t\<rparr>"
    and rest: "env_run moves term_kept (act (modify_c (\<lambda>n. n\<lparr>nd_voted_for := Some c\<rparr>))) n3 (Done (Ok u)) n'"
    unfolding then_p_def by (auto elim!: moving_write simp: modify_c_def)
  moreover from env_run_act [OF moves_preorder rest] obtain n4 where
    "moves n3 n4" "moves (n4\<lparr>nd_voted_for := Some c\<rparr>) n'" by (auto simp: modify_c_def)
  ultimately show "t \<le> nd_current_term n'" "nd_voted_for n' \<noteq> None"
    by (auto simp: term_kept_def vote_sticks_def)
qed

lemma moving_considered:
  fixes ops :: "('s, 'r) state_ops"
  assumes "env_run moves term_kept (consider_vote_p ops req tx i j) n (Done (Ok r)) n'"
  shows "rv_term req \<le> nd_current_term n'" "nd_voted_for n' \<noteq> None"
proof -
  define rest :: "('s, 'r, request_vote_response) node_proc" where "rest = then_p (act (modify_c change_to_follower_state))
    (bind_p (act (gets_c (\<lambda>n. get_last_index ops (nd_state n)))) (\<lambda>our_last_log_index.
     bind_p (act (gets_c (\<lambda>n. get_last_term ops (nd_state n)))) (\<lambda>our_last_log_term.
     if rv_last_log_term req < our_last_log_term
        \<or> our_last_log_term = rv_last_log_term req \<and> rv_last_log_index req < our_last_log_index
     then Done (send_response tx
            \<lparr>rvr_term = i, rvr_vote_granted = False, rvr_id = j, rvr_reason = RvIncompleteLog\<rparr>)
     else Done (send_response tx
            \<lparr>rvr_term = i, rvr_vote_granted = True, rvr_id = j, rvr_reason = RvOk\<rparr>))))"
  from assms have "env_run moves term_kept
      (bind_p (update_current_term_and_voted_for_p ops (rv_term req) (rv_candidate_id req)) (\<lambda>_. rest)) n (Done (Ok r)) n'"
    by (simp add: consider_vote_p_def then_p_def rest_def)
  from moving_bind [OF this] obtain u n1 where
    up: "env_run moves term_kept (update_current_term_and_voted_for_p ops (rv_term req) (rv_candidate_id req)) n (Done (Ok u)) n1"
    and after: "env_run moves term_kept rest n1 (Done (Ok r)) n'" by blast
  have "keeps_p vote_sticks rest" unfolding rest_def by (intro sticky.keeps_p_rules)
  from moving_keeps [OF this after] moving_update [OF up]
  show "rv_term req \<le> nd_current_term n'" "nd_voted_for n' \<noteq> None"
    by (auto simp: term_kept_def vote_sticks_def)
qed

lemma send_response_Ok: "send_response tx r = Ok r' \<Longrightarrow> r' = r"
  by (cases tx) (simp_all add: send_response_def)

lemma moving_grant:
  assumes ok: "votes_ok vs n" and run: "env_run moves term_kept (request_vote_p ops req tx) n (Done (Ok r)) n'"
    and grant: "rvr_vote_granted r"
  shows "votes_ok (vs @ [(rv_term req, rv_candidate_id req)]) n'"
proof -
  let ?refuse = "\<lambda>t i reason. send_response tx
    \<lparr>rvr_term = t, rvr_vote_granted = False, rvr_id = i, rvr_reason = reason\<rparr>"
  let ?body = "\<lambda>t i (voted :: bool). if voted then Done (?refuse t i RvAlreadyVoted)
     else if rv_term req < t then Done (?refuse t i RvStaleTerm) else consider_vote_p ops req tx t i"
  from run obtain n1 n2 where n1: "moves n n1" and n2: "moves n1 n2"
    and check: "env_run moves term_kept (bind_p (if nd_current_term n1 = rv_term req
        then act (gets_c (\<lambda>n. nd_voted_for n \<noteq> None)) else Done (Ok False)) (?body (nd_current_term n1) (nd_id n2)))
        n2 (Done (Ok r)) n'"
    unfolding request_vote_p_def by (elim moving_read) (rule that)
  obtain n3 voted where n3: "moves n2 n3" "nd_current_term n1 = rv_term req \<longrightarrow> voted \<or> nd_voted_for n3 = None"
    and body: "env_run moves term_kept (?body (nd_current_term n1) (nd_id n2) voted) n3 (Done (Ok r)) n'"
  proof (cases "nd_current_term n1 = rv_term req")
    case True
    have "env_run moves term_kept (bind_p (act (gets_c (\<lambda>n. nd_voted_for n \<noteq> None)))
        (?body (nd_current_term n1) (nd_id n2))) n2 (Done (Ok r)) n'" using check by (simp only: if_P [OF True])
    then obtain n3 where "moves n2 n3"
      "env_run moves term_kept (?body (nd_current_term n1) (nd_id n2) (nd_voted_for n3 \<noteq> None)) n3 (Done (Ok r)) n'"
      by (rule moving_read)
    then show thesis by (intro that [of n3 "nd_voted_for n3 \<noteq> None"]) auto
  next
    case False
    have "env_run moves term_kept (?body (nd_current_term n1) (nd_id n2) False) n2 (Done (Ok r)) n'"
      using check by (simp only: if_not_P [OF False] bind_p.simps outcome.case)
    with False show thesis using reflpD [OF moves_preorder(1)] by (intro that [of n2 False]) blast+
  qed
  have refused: "\<not> env_run moves term_kept (Done (?refuse t i reason)) n3 (Done (Ok r)) n'" for t i reason
  proof
    assume "env_run moves term_kept (Done (?refuse t i reason)) n3 (Done (Ok r)) n'"
    from env_run_Done [OF moves_preorder this] have "?refuse t i reason = Ok r" by simp
    with send_response_Ok grant show False by fastforce
  qed
  with body have "\<not> voted" "nd_current_term n1 \<le> rv_term req"
    and considered: "env_run moves term_kept (consider_vote_p ops req tx (nd_current_term n1) (nd_id n2)) n3 (Done (Ok r)) n'"
    by (auto split: if_splits)
  with n3(2) have unvoted: "nd_current_term n1 = rv_term req \<longrightarrow> nd_voted_for n3 = None" by simp
  have step: "moves n1 n3" using n2 n3(1) by (rule moves_trans)
  moreover have "moves n1 n'"
    using step moving_keeps [OF sticky.keeps_handlers_p(1) considered] by (rule moves_trans)
  ultimately show ?thesis
    using votes_ok_new [OF votes_ok_moves [OF ok n1], of n' "rv_term req"] moving_considered [OF considered]
      unvoted \<open>nd_current_term n1 \<le> rv_term req\<close>
    by (auto simp: vote_sticks_def)
qed

lemma moving_candidacy:
  assumes ok: "votes_ok vs n" and run: "env_run moves term_kept stand_p n (Done (Ok t)) n'"
  shows "votes_ok (vs @ [(t, c)]) n'"
proof -
  from run obtain n1 a n2 where n1: "moves n n1" and "(Ok (nd_current_term n1 + 1), increment_term n1) = (Ok a, n2)"
    and up: "term_kept n1 n2"
    and rest: "env_run moves term_kept (bind_p (act (modify_c vote_for_self)) (\<lambda>_. Done (Ok a))) n2 (Done (Ok t)) n'"
    unfolding stand_p_def then_p_def by (rule moving_write)
  then have n2: "n2 = increment_term n1" "a = nd_current_term n1 + 1" "term_kept n1 n2" by simp_all
  from rest obtain n3 u n4 where "moves n2 n3" "modify_c vote_for_self n3 = (Ok u, n4)" "term_kept n3 n4"
    and after: "env_run moves term_kept (Done (Ok a)) n4 (Done (Ok t)) n'"
    by (rule moving_write)
  then have n3: "moves n2 n3" "n4 = vote_for_self n3" "term_kept n3 n4" by (simp_all add: modify_c_def)
  from env_run_Done [OF moves_preorder after] have t: "t = nd_current_term n1 + 1" using n2 by auto
  from env_run_Done [OF moves_preorder after] have n': "moves n4 n'" by auto
  have "nd_current_term n1 < t"
    using n2 t by (auto simp: term_kept_def increment_term_def order.strict_iff_order)
  moreover have "t \<le> nd_current_term n'" "nd_voted_for n' \<noteq> None" "moves n1 n'"
    using n2 n3 n' t by (auto simp: term_kept_def vote_sticks_def increment_term_def vote_for_self_def)
  ultimately show ?thesis
    using votes_ok_new [OF votes_ok_moves [OF ok n1], of n' t] by (auto dest: order.strict_implies_order)
qed

text \<open>Each job of the main loop, and then all of them.\<close>

lemma moving_end:
  assumes "env_run moves term_kept (bind_p p (\<lambda>a. Done (Ok (f a)))) n (Done (Ok b)) n'"
  obtains a n1 where "env_run moves term_kept p n (Done (Ok a)) n1" "b = f a" "moves n1 n'"
  using moving_bind [OF assms] env_run_Done [OF moves_preorder] by blast

lemma moving_job:
  assumes ok: "votes_ok vs n" and run: "env_run moves term_kept (job_p ops j) n (Done (Ok ws)) n'"
  shows "votes_ok (vs @ ws) n'"
proof -
  have "moves n n'" by (rule moving_keeps [OF sticky.keeps_job run])
  with ok have stay: "votes_ok vs n'" by (rule votes_ok_moves)
  show ?thesis
  proof (cases j)
    case (HandleVote req tx)
    from run [unfolded HandleVote job_p.simps] obtain r n1 where
      vote: "env_run moves term_kept (request_vote_p ops req tx) n (Done (Ok r)) n1"
      and "ws = (if rvr_vote_granted r then [(rv_term req, rv_candidate_id req)] else [])" "moves n1 n'"
      by (rule moving_end)
    with stay moving_grant [OF ok vote] show ?thesis by (simp add: votes_ok_moves split: if_splits)
  next
    case OpenSession
    from moving_bind [OF run [unfolded OpenSession job_p.simps]] obtain t n1 where
      stand: "env_run moves term_kept stand_p n (Done (Ok t)) n1" and
      rest: "env_run moves term_kept (bind_p (act (gets_c nd_id)) (\<lambda>i. Done (Ok [(t, i)]))) n1 (Done (Ok ws)) n'" by blast
    from rest obtain i n2 where "ws = [(t, i)]" by (rule moving_end)
    moreover have "moves n1 n'" by (rule moving_keeps [OF _ rest]) (intro sticky.keeps_p_rules)
    ultimately show ?thesis using votes_ok_moves [OF moving_candidacy [OF ok stand]] by blast
  qed (use run stay in \<open>auto simp: then_p_def elim!: moving_end\<close>)
qed

lemma moving_main:
  "votes_ok vs n \<Longrightarrow> env_run moves term_kept (main_p ops js) n (Done (Ok ws)) n' \<Longrightarrow> votes_ok (vs @ ws) n'"
proof (induction js arbitrary: vs ws n n')
  case Nil
  with env_run_Done [OF moves_preorder] show ?case by (fastforce intro: votes_ok_moves)
next
  case (Cons j js)
  from moving_bind [OF Cons.prems(2) [unfolded main_p.simps]] obtain us n1 where
    job: "env_run moves term_kept (job_p ops j) n (Done (Ok us)) n1"
    and after: "env_run moves term_kept (bind_p (main_p ops js) (\<lambda>ws. Done (Ok (us @ ws)))) n1 (Done (Ok ws)) n'" by blast
  from after obtain us' n2 where rest: "env_run moves term_kept (main_p ops js) n1 (Done (Ok us')) n2"
    and ws: "ws = us @ us'" and end_: "moves n2 n'" by (rule moving_end)
  have "votes_ok ((vs @ us) @ us') n2" using moving_job [OF Cons.prems(1) job] rest by (rule Cons.IH)
  with ws votes_ok_moves [OF _ end_] show ?case by simp
qed

section \<open>Asking\<close>

text \<open>The jobs of the main loop with atomic handlers.\<close>

fun job_c :: "('s, 'r) state_ops \<Rightarrow> 'r job \<Rightarrow> ('s, 'r, vote list) node_comp" where
  "job_c ops (HandleVote req tx) =
     bind_c (respond_to_request_vote ops req tx) (\<lambda>r.
       return_c (if rvr_vote_granted r then [(rv_term req, rv_candidate_id req)] else []))"
| "job_c ops (HandleAppend now req tx) = then_c (respond_to_append_entries ops now req tx) (return_c [])"
| "job_c ops OpenSession = (\<lambda>n. (Ok [self_vote n], vs_node (vote_session_initialize n)))"
| "job_c ops (TakeClient request) = (\<lambda>n.
     then_c (on_state (append_entries ops [\<lparr>le_term = nd_current_term n, le_command = ClientCommand request\<rparr>]))
       (return_c []) n)"
| "job_c ops (SendRequest peer) = then_c (emit_request_vote ops peer) (return_c [])"
| "job_c ops (FallBack t) =
     then_c (then_c (update_current_term ops t) (modify_c change_to_follower_state)) (return_c [])"

primrec main_c :: "('s, 'r) state_ops \<Rightarrow> 'r job list \<Rightarrow> ('s, 'r, vote list) node_comp" where
  "main_c ops [] = return_c []"
| "main_c ops (j # js) = bind_c (job_c ops j) (\<lambda>vs. bind_c (main_c ops js) (\<lambda>ws. return_c (vs @ ws)))"

lemma job_alone: "run_alone (job_p ops j) = job_c ops j"
  by (cases j) (simp_all add: fun_eq_iff request_vote_alone append_entries_alone send_request_vote_alone updates_alone
      step_down_p_def client_append_p_def bind_c_def stand_alone self_vote_def vote_session_initialize_def node_change_defs
      outcome_simps return_c_def split: prod.split outcome.split)

lemma main_alone: "run_alone (main_p ops js) = main_c ops js"
  by (induction js) (simp_all add: job_alone fun_eq_iff bind_c_def return_c_def lift_c_def split: prod.split outcome.split)

text \<open>The same node up to its channels.\<close>

definition same_inside :: "('s, 'r) raft_node \<Rightarrow> ('s, 'r) raft_node \<Rightarrow> bool" where
  "same_inside n n' \<longleftrightarrow> n' = n\<lparr>nd_channels := nd_channels n'\<rparr>"

lemma same_insideE:
  assumes "same_inside n n'"
  obtains ch where "n' = n\<lparr>nd_channels := ch\<rparr>"
  using assms unfolding same_inside_def by blast

lemma same_inside_channels [simp]: "same_inside n (n\<lparr>nd_channels := ch\<rparr>)"
  by (simp add: same_inside_def)

lemma same_inside_refl [simp]: "same_inside n n"
  by (simp add: same_inside_def)

lemma same_inside_preorder: "reflp same_inside" "transp same_inside"
proof -
  show "transp same_inside"
  proof (rule transpI)
    fix x y z :: "('s, 'r) raft_node" assume "same_inside x y" "same_inside y z"
    then show "same_inside x z" by (elim same_insideE) simp
  qed
qed (auto intro: reflpI)

lemma agrees_access:
  "(\<And>n ch. f (n\<lparr>nd_channels := ch\<rparr>) = f n) \<Longrightarrow> agrees same_inside (gets_c f)"
  "(\<And>n ch. g (n\<lparr>nd_channels := ch\<rparr>) = (g n)\<lparr>nd_channels := ch\<rparr>) \<Longrightarrow> agrees same_inside (modify_c g)"
  "agrees same_inside (on_state m)"
  "agrees same_inside (\<lambda>n. (Ok (nd_current_term n + 1), increment_term n))"
  by (auto simp: agrees_def gets_c_def modify_c_def on_state_run increment_term_def elim!: same_insideE split: prod.split)
    (simp_all add: same_inside_def)

lemma agrees_changes:
  "agrees same_inside (modify_c change_to_follower_state)" "agrees same_inside (modify_c vote_for_self)"
  "agrees same_inside (modify_c (update_last_heard_from_leader now))" "agrees same_inside (modify_c (update_leader_id l))"
  "agrees same_inside (modify_c (\<lambda>n. n\<lparr>nd_current_term := t\<rparr>))"
  "agrees same_inside (modify_c (\<lambda>n. n\<lparr>nd_voted_for := v\<rparr>))"
  "agrees same_inside (gets_c nd_current_term)" "agrees same_inside (gets_c nd_id)"
  "agrees same_inside (gets_c (\<lambda>n. h (nd_state n)))" "agrees same_inside (gets_c (\<lambda>n. nd_voted_for n \<noteq> None))"
  by (rule agrees_access; simp add: node_change_defs)+

lemmas follows_rules =
  follows_bind follows_then follows_if follows_p_Done follows_act agrees_access(3,4) agrees_changes

lemma follows_job:
  assumes "\<And>p. j \<noteq> SendRequest p"
  shows "follows_p same_inside (job_p ops j)"
proof (cases j)
  case (SendRequest p)
  with assms show ?thesis by blast
qed (simp only: job_p.simps request_vote_p_def consider_vote_p_def append_entries_p_def stand_p_def
    client_append_p_def step_down_p_def update_current_term_p_def update_current_term_and_voted_for_p_def Let_def,
  (intro follows_rules | simp)+)+

lemma follows_main: "\<forall>p. SendRequest p \<notin> set js \<Longrightarrow> follows_p same_inside (main_p ops js)"
  by (induction js) (auto intro!: follows_bind follows_job)

lemma asking_keeps: "keeps_p same_inside (job_p ops (SendRequest peer))"
proof -
  have "guarantees same_inside (on_out_rpc m :: ('s, 'r, unit) node_comp)" for m
    by (auto simp: guarantees_def on_out_rpc_run split: prod.split)
  then show ?thesis
    unfolding job_p.simps send_request_vote_p_def
    by (intro keeps_bind keeps_then keeps_if keeps_p_Done keeps_act guarantees_pure same_inside_preorder)
qed

end
