(* ===== verification/Races.thy ===== *)
theory Races
  imports Preemption Logs
begin

text \<open>
  What the handlers do when tasks of one node interleave access by access: what stays true of them
  run alone, and two races. The main loop of a candidate answers messages while the tasks of its
  session ask peers and step down, on other threads.
\<close>

section \<open>What stays\<close>

text \<open>Evaluating a schedule: every access in turn.\<close>

lemmas schedule_eval = bind_act act_def then_p_def job_p.simps request_vote_p_def consider_vote_p_def
  update_current_term_and_voted_for_p_def update_current_term_p_def step_down_p_def stand_p_def
  gets_c_def modify_c_def on_state_run node_change_defs

text \<open>
  C25. Tasks that ask peers for votes never disturb the main loop: however the accesses of its jobs -
  vote and append requests, openings of sessions, client requests, step-downs, in any number and order -
  interleave with those of any number of tasks that compose and send vote requests, the main loop ends
  with the votes or the error with which the atomic handlers end one after the other from the same
  node, and it leaves the node they leave, up to its channels. So for these tasks the atomic handlers
  of the node machine lose nothing.
\<close>

theorem asking_leaves_handlers_alone:
  assumes run: "par_run keep (n, main_p ops js # map (\<lambda>peer. job_p ops (SendRequest peer)) peers) (n', Done r # qs)"
    and jobs: "\<forall>peer. SendRequest peer \<notin> set js"
  shows "\<exists>m. main_c ops js n = (r, m) \<and> n' = m\<lparr>nd_channels := nd_channels n'\<rparr>"
proof -
  have "env_run (\<lambda>s t. same_inside s t \<and> keep s t) keep (main_p ops js) n (Done r) n'"
    using par_env [OF run, of 0 same_inside] by (simp add: asking_keeps nth_Cons' del: job_p.simps)
  then have "env_run same_inside keep (main_p ops js) n (Done r) n'"
    by (rule env_run_weaken) simp
  from env_run_as_alone [OF same_inside_preorder follows_main [OF jobs] this same_inside_refl] show ?thesis
    by (auto simp: main_alone same_inside_def)
qed

theorem asking_leaves_handlers_alone_witness:
  "\<exists>n' vs qs m. par_run (\<lambda>_ _. True) (sample_voter, main_p memory_ops [HandleVote (sample_vote_request 3) Alive] #
      map (\<lambda>peer. job_p memory_ops (SendRequest peer)) [1]) (n', Done (Ok vs) # qs) \<and>
    main_c memory_ops [HandleVote (sample_vote_request 3) Alive] sample_voter = (Ok vs, m) \<and>
    vs = [(2, 3)] \<and> n' = m\<lparr>nd_channels := nd_channels n'\<rparr>"
proof -
  let ?start = "(sample_voter, main_p memory_ops [HandleVote (sample_vote_request 3) Alive] #
      map (\<lambda>peer. job_p memory_ops (SendRequest peer)) [1])"
  obtain n' vs qs where run: "par_schedule (\<lambda>_ _. True) [1, 0, 0, 1, 0, 0, 1, 0, 1, 0, 0, 0, 0] ?start = Some (n', Done (Ok vs) # qs)"
    and vs: "vs = [(2, 3)]"
    by (simp add: schedule_eval send_request_vote_p_def on_out_rpc_run channel_send_def create_channels_def unbounded_channel_def
        channel_full_def sample_voter_def sample_defs memory_defs)
  from par_schedule_run [OF run] have par: "par_run (\<lambda>_ _. True) ?start (n', Done (Ok vs) # qs)" .
  with asking_leaves_handlers_alone [OF this] vs show ?thesis by auto
qed

text \<open>
  C9. One vote per term does not need the handlers to be atomic: however the accesses of a node's
  main loop - its handlers, its openings of sessions, in any number and order - interleave with those
  of any other jobs on the node, the votes it casts, for itself and others, name pairwise distinct
  terms, if no access lowers the term. The check of the vote and the write of it are accesses apart,
  but only the main loop casts votes.
\<close>

theorem preempted_votes_once:
  assumes "par_run term_kept (n, main_p ops js # map (job_p ops) ts) (n', Done (Ok vs) # qs)"
  shows "distinct (map fst vs)"
proof -
  have "env_run moves term_kept (main_p ops js) n (Done (Ok vs)) n'"
    using par_env [OF assms, of 0 vote_sticks] by (simp add: sticky.keeps_job nth_Cons')
  from moving_main [OF votes_ok_Nil this] show ?thesis by (simp add: votes_ok_def)
qed

theorem preempted_votes_once_witness:
  "\<exists>n' vs qs. par_run term_kept (sample_voter,
      main_p memory_ops [OpenSession, HandleVote ((sample_vote_request 3)\<lparr>rv_term := 4\<rparr>) Alive] # map (job_p memory_ops) [FallBack 3])
      (n', Done (Ok vs) # qs) \<and> map fst vs = [2, 4] \<and> distinct (map fst vs)"
proof -
  let ?start = "(sample_voter,
      main_p memory_ops [OpenSession, HandleVote ((sample_vote_request 3)\<lparr>rv_term := 4\<rparr>) Alive] # map (job_p memory_ops) [FallBack 3])"
  obtain n' vs qs where run: "par_schedule term_kept ([0, 1, 1, 0, 0, 1, 0, 0, 0, 0, 0, 0, 0, 0, 0]) ?start = Some (n', Done (Ok vs) # qs)"
    and vs: "map fst vs = [2, 4]"
    by (simp add: schedule_eval sample_voter_def sample_defs memory_defs term_kept_def)
  from preempted_votes_once [OF par_schedule_run [OF run]] par_schedule_run [OF run] vs
  show ?thesis by (intro exI [of _ n'] exI [of _ vs] exI [of _ qs] conjI)
qed

context fixed_membership
begin

lemma jobs_keep_members:
  "par_run keep (n, main_p ops js # map (job_p ops) ts) (n', qs) \<Longrightarrow>
     get_membership ops (nd_state n') = get_membership ops (nd_state n)"
  using members.keeps_jobs by (fastforce simp: same_members_def)

end

text \<open>
  Without any condition on the term: the node's id, its membership and that it has voted outlive every
  interleaving, whatever the store's calls return.
\<close>

theorem preempted_node_keeps_itself:
  assumes "fixed_membership ops" and "par_run keep (n, main_p ops js # map (job_p ops) ts) (n', qs)"
  shows "nd_id n' = nd_id n \<and> get_membership ops (nd_state n') = get_membership ops (nd_state n) \<and>
    (nd_voted_for n \<noteq> None \<longrightarrow> nd_voted_for n' \<noteq> None)"
  using config.keeps_jobs [OF assms(2)] sticky.keeps_jobs [OF assms(2)]
    fixed_membership.jobs_keep_members [OF assms]
  by (simp add: same_config_def vote_sticks_def)

section \<open>Races\<close>

text \<open>A vote request that passed the checks is about to be considered; the node is as it was.\<close>

lemma vote_checked:
  assumes "nd_current_term n \<le> rv_term req" "nd_current_term n = rv_term req \<longrightarrow> nd_voted_for n = None"
  shows "par_run (\<lambda>_ _. True) (n, job_p ops (HandleVote req tx) # ps)
    (n, bind_p (consider_vote_p ops req tx (nd_current_term n) (nd_id n)) (\<lambda>r.
          Done (Ok (if rvr_vote_granted r then [(rv_term req, rv_candidate_id req)] else []))) # ps)"
  by (rule par_schedule_run [of _ "[0, 0] @ (if nd_current_term n = rv_term req then [0] else [])"])
    (use assms in \<open>simp add: bind_act request_vote_p_def gets_c_def not_less [symmetric]\<close>)

context total_log
begin

lemma vote_considered:
  obtains r n' where "run_alone (consider_vote_p ops req Alive i j) n = (Ok r, n')"
    "nd_current_term n' = rv_term req" "load_current_term ops (nd_state n') = rv_term req"
proof -
  obtain s1 where s1: "store_current_term ops (rv_term req) (nd_state n) = (Ok (), s1)" by (rule store_term_runs)
  obtain s2 where s2: "store_voted_for ops (rv_candidate_id req) s1 = (Ok (), s2)" by (rule store_vote_runs)
  let ?n = "n\<lparr>nd_state := s2, nd_current_term := rv_term req, nd_voted_for := Some (rv_candidate_id req)\<rparr>"
  have "update_current_term_and_voted_for ops (rv_term req) (rv_candidate_id req) n = (Ok (), ?n)"
    using s1 s2 by (simp add: update_both_Ok)
  moreover have "load_current_term ops s2 = rv_term req"
    using store_term_law [OF s1] store_vote_law [OF s2] by simp
  moreover from calculation(1)
  have "\<exists>r. run_alone (consider_vote_p ops req Alive i j) n = (Ok r, ?n\<lparr>nd_current_state := Follower\<rparr>)"
    by (auto simp: consider_vote_p_def updates_alone bind_c_def outcome_simps change_to_follower_state_def)
  ultimately show thesis by (auto intro: that)
qed

end

text \<open>
  C23. A vote request lowers the term when it is preempted. The handler compares its term with the
  request's and stores the request's a few accesses later. If a task of the session steps down to a
  newer term \<open>u\<close> in between, the node is in \<open>u\<close> for a while and ends in the request's older term, in
  memory and in the store. Run one after the other, in either order, the
  two leave the node in \<open>u\<close>.
\<close>

theorem preempted_vote_lowers_term:
  assumes store: "total_log ops log_of base" and considered: "nd_current_term n \<le> rv_term req"
    "nd_current_term n = rv_term req \<longrightarrow> nd_voted_for n = None" and newer: "rv_term req < u"
  shows "(\<forall>js \<in> {[HandleVote req Alive, FallBack u], [FallBack u, HandleVote req Alive]}.
      nd_current_term (snd (run_alone (main_p ops js) n)) = u) \<and>
    (\<exists>n1 qs n2 vs.
      par_run (\<lambda>_ _. True) (n, [job_p ops (HandleVote req Alive), job_p ops (FallBack u)]) (n1, qs) \<and>
      nd_current_term n1 = u \<and>
      par_run (\<lambda>_ _. True) (n1, qs) (n2, [Done (Ok vs), Done (Ok [])]) \<and>
      nd_current_term n2 = rv_term req \<and> load_current_term ops (nd_state n2) = rv_term req)"
proof
  obtain s where s: "store_current_term ops u (nd_state n) = (Ok (), s)"
    by (rule total_log.store_term_runs [OF store])
  obtain r nr where vote: "respond_to_request_vote ops req Alive n = (Ok r, nr)"
    using total_log.vote_answered [OF store] by blast
  obtain s' where s': "store_current_term ops u (nd_state nr) = (Ok (), s')"
    by (rule total_log.store_term_runs [OF store])
  let ?fallen = "\<lambda>m s. m\<lparr>nd_state := s, nd_current_term := u, nd_current_state := Follower\<rparr>"
  have down: "run_alone (job_p ops (FallBack u)) m = (Ok [], ?fallen m s)"
    if "store_current_term ops u (nd_state m) = (Ok (), s)" for m s
    using that by (simp add: step_down_p_def updates_alone update_current_term_def on_state_run bind_c_def
        outcome_simps change_to_follower_state_def)
  have "respond_to_request_vote ops req Alive (?fallen n s) =
      (Ok \<lparr>rvr_term = u, rvr_vote_granted = False, rvr_id = nd_id n, rvr_reason = RvStaleTerm\<rparr>, ?fallen n s)"
    using newer by (auto simp: respond_to_request_vote_def Let_def)
  with vote down [OF s] down [OF s']
  show "\<forall>js \<in> {[HandleVote req Alive, FallBack u], [FallBack u, HandleVote req Alive]}.
      nd_current_term (snd (run_alone (main_p ops js) n)) = u"
    by (simp add: request_vote_alone bind_c_def outcome_simps)
  let ?rest = "bind_p (consider_vote_p ops req Alive (nd_current_term n) (nd_id n)) (\<lambda>r.
      Done (Ok (if rvr_vote_granted r then [(rv_term req, rv_candidate_id req)] else [])))"
  have "par_run (\<lambda>_ _. True) (n, [?rest, job_p ops (FallBack u)]) (?fallen n s, [?rest, Done (Ok [])])"
    using par_run_alone [of 1 "[?rest, job_p ops (FallBack u)]" _ n, OF _ refl] down [OF s] by simp
  with vote_checked [OF considered] have first:
    "par_run (\<lambda>_ _. True) (n, [job_p ops (HandleVote req Alive), job_p ops (FallBack u)]) (?fallen n s, [?rest, Done (Ok [])])"
    by (rule par_run_trans)
  obtain r' n2 where "run_alone (consider_vote_p ops req Alive (nd_current_term n) (nd_id n)) (?fallen n s) = (Ok r', n2)"
    and n2: "nd_current_term n2 = rv_term req" "load_current_term ops (nd_state n2) = rv_term req"
    by (rule total_log.vote_considered [OF store])
  then obtain vs where "run_alone ?rest (?fallen n s) = (Ok vs, n2)" by (simp add: bind_c_def outcome_simps)
  then have "par_run (\<lambda>_ _. True) (?fallen n s, [?rest, Done (Ok [])]) (n2, [Done (Ok vs), Done (Ok [])])"
    using par_run_alone [of 0 "[?rest, Done (Ok [])]"] by simp
  with first n2 show "\<exists>n1 qs n2 vs.
      par_run (\<lambda>_ _. True) (n, [job_p ops (HandleVote req Alive), job_p ops (FallBack u)]) (n1, qs) \<and>
      nd_current_term n1 = u \<and>
      par_run (\<lambda>_ _. True) (n1, qs) (n2, [Done (Ok vs), Done (Ok [])]) \<and>
      nd_current_term n2 = rv_term req \<and> load_current_term ops (nd_state n2) = rv_term req"
    by fastforce
qed

text \<open>
  C24. A vote request can name a log that never was. Its last index and last term are read under two
  locks; if an append request that replaces a longer old log by a shorter newer one is handled in
  between, the request that goes out carries the old log's index and the new log's term. It ranks
  above both logs in the order by which voters judge it, and it is of the new leader's term.
\<close>

theorem torn_vote_request:
  fixes ops :: "('s, 'r) state_ops"
  assumes appended: "respond_to_append_entries ops now req Alive n = (Ok r, n')"
    and shorter: "get_last_index ops (nd_state n') < get_last_index ops (nd_state n)"
    and newer: "get_last_term ops (nd_state n) < get_last_term ops (nd_state n')"
    and room: "ch_receiver (out_rpc (nd_channels n')) = Alive" "\<not> channel_full (out_rpc (nd_channels n'))"
  shows "\<exists>n'' vreq.
    par_run (\<lambda>_ _. True) (n, [job_p ops (HandleAppend now req Alive), job_p ops (SendRequest peer)])
      (n'', [Done (Ok []), Done (Ok [])]) \<and>
    ch_queue (out_rpc (nd_channels n'')) = ch_queue (out_rpc (nd_channels n')) @ [(peer, RequestVote vreq Alive)] \<and>
    rv_candidate_id vreq = nd_id n' \<and> rv_term vreq = nd_current_term n' \<and>
    own_position ops (nd_state n) < request_position vreq \<and> own_position ops (nd_state n') < request_position vreq"
proof -
  define vreq where "vreq = \<lparr>rv_term = nd_current_term n', rv_candidate_id = nd_id n',
    rv_last_log_index = get_last_index ops (nd_state n), rv_last_log_term = get_last_term ops (nd_state n')\<rparr>"
  define rest :: "('s, 'r, vote list) node_proc" where "rest = bind_p (act (gets_c (\<lambda>n. get_last_term ops (nd_state n)))) (\<lambda>last_log_term.
     bind_p (act (gets_c (\<lambda>n. (nd_current_term n, nd_id n)))) (\<lambda>(term', id').
     bind_p (act (on_out_rpc (channel_send (peer, RequestVote
       \<lparr>rv_term = term', rv_candidate_id = id', rv_last_log_index = get_last_index ops (nd_state n),
        rv_last_log_term = last_log_term\<rparr> Alive)))) (\<lambda>_. Done (Ok []))))"
  let ?append = "job_p ops (HandleAppend now req Alive)"
  have "par_run (\<lambda>_ _. True) (n, [?append, job_p ops (SendRequest peer)]) (n, [?append, rest])"
    by (rule par_schedule_run [of _ "[1]"])
      (simp add: bind_act rest_def send_request_vote_p_def then_p_def gets_c_def fun_eq_iff split: prod.split)
  moreover have "par_run (\<lambda>_ _. True) (n, [?append, rest]) (n', [Done (Ok []), rest])"
    using par_run_alone [of 0 "[?append, rest]"] appended
    by (simp add: append_entries_alone bind_c_def outcome_simps)
  moreover obtain n'' where sent: "on_out_rpc (channel_send (peer, RequestVote vreq Alive)) n' = (Ok (), n'')"
    "ch_queue (out_rpc (nd_channels n'')) = ch_queue (out_rpc (nd_channels n')) @ [(peer, RequestVote vreq Alive)]"
    using room by (simp add: on_out_rpc_run channel_send_def)
  moreover from sent(1) have "par_run (\<lambda>_ _. True) (n', [Done (Ok []), rest]) (n'', [Done (Ok []), Done (Ok [])])"
    using par_run_alone [of 1 "[Done (Ok []), rest]"] by (simp add: rest_def vreq_def bind_c_def outcome_simps)
  moreover have "own_position ops (nd_state n) < request_position vreq" "own_position ops (nd_state n') < request_position vreq"
    using shorter newer by (simp_all add: vreq_def own_position_def request_position_def less_log_position_def)
  ultimately show ?thesis by (intro exI [of _ n''] exI [of _ vreq]) (auto simp: vreq_def intro: par_run_trans)
qed

text \<open>Three entries of term 1, of which a leader of term 2 replaces the last two by one.\<close>

definition three_old :: "(nat memory_state, nat) raft_node" where
  "three_old = sample_node 2 (sample_state 1 [sample_entry 1, sample_entry 1, sample_entry 1])"

theorem preempted_vote_lowers_term_witness:
  "nd_current_term sample_voter = 1 \<and> rv_term (sample_vote_request 1) = 2 \<and> (\<exists>n1 qs n2 vs.
     par_run (\<lambda>_ _. True) (sample_voter, [job_p memory_ops (HandleVote (sample_vote_request 1) Alive), job_p memory_ops (FallBack 5)])
       (n1, qs) \<and> nd_current_term n1 = 5 \<and>
     par_run (\<lambda>_ _. True) (n1, qs) (n2, [Done (Ok vs), Done (Ok [])]) \<and> nd_current_term n2 = 2)"
  using preempted_vote_lowers_term [OF memory.total_log_axioms, of sample_voter "sample_vote_request 1" 5]
  by (auto simp: sample_voter_def sample_defs)

theorem torn_vote_request_witness:
  "\<exists>n'' vreq. par_run (\<lambda>_ _. True) (three_old,
      [job_p indexed_ops (HandleAppend 5 (sample_append 1 1 [sample_entry 2]) Alive), job_p indexed_ops (SendRequest 3)])
      (n'', [Done (Ok []), Done (Ok [])]) \<and>
    ch_queue (out_rpc (nd_channels n'')) = [(3, RequestVote vreq Alive)] \<and> rv_candidate_id vreq = 2 \<and> rv_term vreq = 2"
proof -
  let ?req = "sample_append 1 1 [sample_entry 2]"
  obtain r n' where run: "respond_to_append_entries indexed_ops 5 ?req Alive three_old = (Ok r, n')"
    and n': "n' = three_old\<lparr>nd_current_term := 2, nd_last_heard_from_leader := Some 5, nd_leader_id := Some 1,
      nd_state := (nd_state three_old)\<lparr>ms_entries := [sample_entry 1, sample_entry 2], ms_current_term := 2, ms_commit_index := 1\<rparr>\<rparr>"
    by (simp add: respond_to_append_entries_def three_old_def sample_append_def sample_defs indexed_ops_def memory_defs
      ms_push_all_eq entry_at_def update_current_term_def on_state_run node_change_defs bind_c_def outcome_simps Let_def)
  let ?jobs = "[job_p indexed_ops (HandleAppend 5 ?req Alive), job_p indexed_ops (SendRequest 3)]"
  have "\<exists>n'' vreq. par_run (\<lambda>_ _. True) (three_old, ?jobs) (n'', [Done (Ok []), Done (Ok [])]) \<and>
      ch_queue (out_rpc (nd_channels n'')) = ch_queue (out_rpc (nd_channels n')) @ [(3, RequestVote vreq Alive)] \<and>
      rv_candidate_id vreq = nd_id n' \<and> rv_term vreq = nd_current_term n' \<and>
      own_position indexed_ops (nd_state three_old) < request_position vreq \<and>
      own_position indexed_ops (nd_state n') < request_position vreq"
    by (rule torn_vote_request [OF run])
      (simp_all add: n' three_old_def sample_defs indexed_ops_def memory_defs create_channels_def
        unbounded_channel_def channel_full_def)
  moreover have "ch_queue (out_rpc (nd_channels n')) = []" "nd_id n' = 2" "nd_current_term n' = 2"
    by (simp_all add: n' three_old_def sample_defs create_channels_def unbounded_channel_def)
  ultimately show ?thesis by auto
qed

end
