(* ===== verification/Test_Cluster.thy ===== *)
theory Test_Cluster
  imports Cluster_Liveness "HOL-Library.Sublist"
begin

text \<open>
  The cluster the repository's tests run (\<open>tests/fixtures/server.rs\<close> and \<open>cluster.rs\<close>): a server
  wraps a node over the memory store and carries its messages over TCP, a cluster builds servers
  that know each other. Fresh ids (\<open>NodeId::new_v4()\<close>) are arguments, and so is the network: what
  connecting to an address, writing a request and reading the answer to its end comes to. An
  \<open>anyhow::Error\<close> is known by its text, as elsewhere.
\<close>

section \<open>Servers\<close>

record 'r raft_node_server =
  srv_id :: node_id
  srv_client_addr :: socket_addr
  srv_peer_addr :: socket_addr
  srv_node :: "('r memory_state, 'r) raft_node"

record raft_node_server_builder =
  sb_seeds :: "(node_id, socket_addr) hashmap"
  sb_id :: node_id
  sb_election_timeout_range :: "u64 \<times> u64"
  sb_heartbeat_interval :: u64
  sb_client_addr :: socket_addr
  sb_peer_addr :: socket_addr

definition localhost :: "32 word" where
  "localhost = 0x7F000001"

definition server_builder_default :: "node_id \<Rightarrow> u64 \<times> u64 \<Rightarrow> u64 \<Rightarrow> raft_node_server_builder" where
  "server_builder_default fresh_id default_range default_interval =
     \<lparr>sb_seeds = [], sb_id = fresh_id, sb_election_timeout_range = default_range,
      sb_heartbeat_interval = default_interval,
      sb_client_addr = SocketAddr localhost 5551, sb_peer_addr = SocketAddr localhost 5550\<rparr>"

text \<open>
  \<open>build\<close> sets every field of the node's builder but the store, so the id and the timings that
  \<open>builder_default\<close> draws do not matter.
\<close>

definition server_build :: "raft_node_server_builder \<Rightarrow> 'r raft_node_server outcome" where
  "server_build b =
     map_outcome (\<lambda>node. \<lparr>srv_id = sb_id b, srv_client_addr = sb_client_addr b,
                          srv_peer_addr = sb_peer_addr b, srv_node = node\<rparr>)
       (builder_build memory_ops
         (builder_channels create_channels
         (builder_seeds (sb_seeds b)
         (builder_heartbeat_interval (sb_heartbeat_interval b)
         (builder_election_timeout_range (sb_election_timeout_range b)
         (builder_id (sb_id b)
         (builder_default (sb_id b) memory_state_default (0, 0) 0 ())))))))"

lemma server_build_Ok:
  "server_build b = Ok
     \<lparr>srv_id = sb_id b, srv_client_addr = sb_client_addr b, srv_peer_addr = sb_peer_addr b,
      srv_node =
        \<lparr>nd_id = sb_id b, nd_current_term = 0, nd_voted_for = None,
         nd_state = memory_state_default\<lparr>ms_membership := sb_seeds b\<rparr>, nd_channels = create_channels,
         nd_current_state = Follower, nd_election_timeout_range = sb_election_timeout_range b,
         nd_heartbeat_interval = sb_heartbeat_interval b, nd_leader_id = None,
         nd_last_heard_from_leader = None\<rparr>\<rparr>"
  by (simp add: server_build_def builder_build_def builder_channels_def builder_seeds_def
      builder_heartbeat_interval_def builder_election_timeout_range_def builder_id_def builder_default_def
      memory_state_default_def memory_defs bind_c_def outcome_simps)

section \<open>Building a cluster\<close>

text \<open>Ports are \<open>u16\<close>; the arithmetic on them follows the build profile as that on \<open>u64\<close> does.\<close>

type_synonym u16 = "16 word"

definition u16_add :: "profile \<Rightarrow> u16 \<Rightarrow> u16 \<Rightarrow> u16 outcome" where
  "u16_add pr a b =
     (if pr = Checked \<and> 2 ^ 16 \<le> unat a + unat b then Panicked ArithmeticOverflow else Ok (a + b))"

definition u16_mul :: "profile \<Rightarrow> u16 \<Rightarrow> u16 \<Rightarrow> u16 outcome" where
  "u16_mul pr a b =
     (if pr = Checked \<and> 2 ^ 16 \<le> unat a * unat b then Panicked ArithmeticOverflow else Ok (a * b))"

fun and_then :: "'a outcome \<Rightarrow> ('a \<Rightarrow> 'b outcome) \<Rightarrow> 'b outcome" where
  "and_then (Ok a) f = f a"
| "and_then (Err e) f = Err e"
| "and_then (Panicked p) f = Panicked p"
| "and_then Blocked f = Blocked"

definition cluster_peer_addr :: "profile \<Rightarrow> u16 \<Rightarrow> socket_addr outcome" where
  "cluster_peer_addr pr i =
     and_then (u16_mul pr i 2) (\<lambda>k. map_outcome (SocketAddr localhost) (u16_add pr 5550 k))"

text \<open>The addresses by id, for the ids drawn from index \<open>i\<close> on.\<close>

fun cluster_peer_addrs ::
    "profile \<Rightarrow> u16 \<Rightarrow> node_id list \<Rightarrow> (node_id, socket_addr) hashmap \<Rightarrow> (node_id, socket_addr) hashmap outcome" where
  "cluster_peer_addrs pr i [] m = Ok m"
| "cluster_peer_addrs pr i (j # ids) m =
     and_then (cluster_peer_addr pr i) (\<lambda>addr. cluster_peer_addrs pr (i + 1) ids (hm_set j addr m))"

record raft_node_cluster_config =
  cc_election_timeout_range :: "u64 \<times> u64"
  cc_heartbeat_interval :: u64

fun cluster_servers ::
    "profile \<Rightarrow> raft_node_cluster_config \<Rightarrow> (node_id, socket_addr) hashmap \<Rightarrow> (node_id, socket_addr) hashmap
       \<Rightarrow> (node_id, 'r raft_node_server) hashmap \<Rightarrow> (node_id, 'r raft_node_server) hashmap outcome" where
  "cluster_servers pr config seeds [] servers = Ok servers"
| "cluster_servers pr config seeds ((j, addr) # rest) servers =
     and_then (u16_add pr (sa_port addr) 1) (\<lambda>client_port.
     and_then (server_build
         \<lparr>sb_seeds = seeds, sb_id = j, sb_election_timeout_range = cc_election_timeout_range config,
          sb_heartbeat_interval = cc_heartbeat_interval config,
          sb_client_addr = SocketAddr (sa_ip addr) client_port, sb_peer_addr = addr\<rparr>) (\<lambda>server.
     cluster_servers pr config seeds rest (hm_set j server servers)))"

text \<open>\<open>new_with_config\<close>, with the ids it draws; there are \<open>num_nodes\<close> of them, a \<open>u16\<close>.\<close>

definition new_with_config ::
    "profile \<Rightarrow> node_id list \<Rightarrow> raft_node_cluster_config \<Rightarrow> (node_id, 'r raft_node_server) hashmap outcome" where
  "new_with_config pr ids config =
     and_then (cluster_peer_addrs pr 0 ids []) (\<lambda>peer_addrs.
       cluster_servers pr config peer_addrs peer_addrs [])"

text \<open>
  \<open>start\<close>: every server's node enters its main loop. The other ids have no node; the record of a
  cluster gives them that of some server.
\<close>

definition cluster_start :: "(node_id, 'r raft_node_server) hashmap \<Rightarrow> ('r memory_state, 'r) cluster" where
  "cluster_start servers =
     \<lparr>cl_main = (\<lambda>i. Dispatching (srv_node (case hm_get servers i of Some s \<Rightarrow> s | None \<Rightarrow> snd (hd servers)))),
      cl_votes = (\<lambda>_. []), cl_session = (\<lambda>_. 0), cl_counted = (\<lambda>_. {}),
      cl_requests = {}, cl_answers = {}, cl_elected = {}\<rparr>"

text \<open>
  \<open>shutdown\<close> signals one node after the other and stops at the first signal that fails; then it
  takes the kill switch that \<open>start\<close> left, known by its receiver, and uses it.
\<close>

definition server_shutdown :: "'r raft_node_server \<Rightarrow> unit outcome \<times> 'r raft_node_server" where
  "server_shutdown s = (case node_shutdown (srv_node s) of (r, n) \<Rightarrow> (r, s\<lparr>srv_node := n\<rparr>))"

fun shutdown_servers ::
    "(node_id, 'r raft_node_server) hashmap \<Rightarrow> unit outcome \<times> (node_id, 'r raft_node_server) hashmap" where
  "shutdown_servers [] = (Ok (), [])"
| "shutdown_servers ((j, s) # rest) =
     (case server_shutdown s of
        (Ok _, s') \<Rightarrow> (case shutdown_servers rest of (r, rest') \<Rightarrow> (r, (j, s') # rest'))
      | (r, s') \<Rightarrow> (r, (j, s') # rest))"

definition cluster_shutdown ::
    "(node_id, 'r raft_node_server) hashmap \<times> receiver option
       \<Rightarrow> unit outcome \<times> (node_id, 'r raft_node_server) hashmap \<times> receiver option" where
  "cluster_shutdown c =
     (case shutdown_servers (fst c) of
        (Ok _, servers) \<Rightarrow>
          (case snd c of
             None \<Rightarrow> Ok ()
           | Some Alive \<Rightarrow> Ok ()
           | Some (Dropped _) \<Rightarrow> Err (custom ''Failed to send kill signal''), servers, None)
      | (r, servers) \<Rightarrow> (r, servers, snd c))"

text \<open>A cluster whose nodes have no signal waiting is shut down whole.\<close>

lemma shutdown_reaches_all:
  assumes "\<And>j s. (j, s) \<in> set servers \<Longrightarrow> shutdown_ch (nd_channels (srv_node s)) = bounded_channel 1"
  shows "fst (shutdown_servers servers) = Ok ()"
    "(j, s') \<in> set (snd (shutdown_servers servers)) \<Longrightarrow> ch_queue (shutdown_ch (nd_channels (srv_node s'))) = [()]"
proof -
  have "fst (shutdown_servers servers) = Ok () \<and> (\<forall>(j, s') \<in> set (snd (shutdown_servers servers)).
      ch_queue (shutdown_ch (nd_channels (srv_node s'))) = [()])"
    using assms
  proof (induction servers)
    case (Cons x servers)
    obtain j s where x: "x = (j, s)" by force
    with Cons.prems [of j s] have "\<exists>s'. server_shutdown s = (Ok (), s') \<and> ch_queue (shutdown_ch (nd_channels (srv_node s'))) = [()]"
      by (simp add: server_shutdown_def node_shutdown_def on_shutdown_def zoom_c_def channel_send_def channel_full_def
          bounded_channel_def)
    moreover have "fst (shutdown_servers servers) = Ok () \<and> (\<forall>(j, s') \<in> set (snd (shutdown_servers servers)).
        ch_queue (shutdown_ch (nd_channels (srv_node s'))) = [()])"
      by (rule Cons.IH) (use Cons.prems in auto)
    ultimately show ?case using x by (auto split: prod.splits)
  qed simp
  then show "fst (shutdown_servers servers) = Ok ()"
    "(j, s') \<in> set (snd (shutdown_servers servers)) \<Longrightarrow> ch_queue (shutdown_ch (nd_channels (srv_node s'))) = [()]"
    by auto
qed

lemma and_then_eq_Ok [simp]: "and_then r f = Ok b \<longleftrightarrow> (\<exists>a. r = Ok a \<and> f a = Ok b)"
  by (cases r) simp_all

text \<open>The ports: index \<open>i\<close> has 5550 + 2 i, which fits as long as \<open>i\<close> is below 29993.\<close>

lemma cluster_peer_addr_Ok:
  assumes "i < 2 ^ 16"
  shows "cluster_peer_addr Checked (of_nat i) =
    (if i < 29993 then Ok (SocketAddr localhost (of_nat (5550 + 2 * i))) else Panicked ArithmeticOverflow)"
proof -
  have i: "unat (of_nat i :: u16) = i"
    using assms by (simp add: unsigned_of_nat take_bit_nat_eq_self)
  have k: "unat (of_nat i * 2 :: u16) = i * 2" if "i * 2 < 2 ^ 16"
    using i that by (simp add: unat_word_ariths)
  have base: "unat (5550 :: u16) = 5550" by simp
  consider "2 ^ 16 \<le> i * 2" | "i * 2 < 2 ^ 16" by linarith
  then show ?thesis
  proof cases
    case 1
    then show ?thesis by (simp add: cluster_peer_addr_def u16_mul_def i)
  next
    case 2
    with k have "unat (5550 :: u16) + unat (of_nat i * 2 :: u16) = 5550 + 2 * i" by (simp only: base)
    with 2 show ?thesis by (auto simp: cluster_peer_addr_def u16_mul_def u16_add_def i simp del: unat_of_nat)
  qed
qed

definition addr_at :: "nat \<Rightarrow> socket_addr" where
  "addr_at i = SocketAddr localhost (of_nat (5550 + 2 * i))"

lemma hm_set_new: "k \<notin> fst ` set m \<Longrightarrow> hm_set k v m = m @ [(k, v)]"
  unfolding hm_set_def by (induction m) auto

lemma cluster_peer_addrs_run:
  assumes "i + length ids < 2 ^ 16" and "distinct (map fst m @ ids)"
  shows "cluster_peer_addrs Checked (of_nat i) ids m =
    (if ids = [] \<or> i + length ids \<le> 29993 then Ok (m @ zip ids (map addr_at [i..<i + length ids]))
     else Panicked ArithmeticOverflow)"
  using assms
proof (induction ids arbitrary: i m)
  case (Cons j ids)
  have new: "j \<notin> fst ` set m" using Cons.prems(2) by (auto simp: image_iff)
  have next_i: "(of_nat i + 1 :: u16) = of_nat (Suc i)" by simp
  have upt: "[i..<i + length (j # ids)] = i # [Suc i..<Suc i + length ids]"
    by (simp add: upt_conv_Cons del: upt_Suc)
  show ?case
  proof (cases "i < 29993")
    case True
    with Cons.prems(1) have "cluster_peer_addr Checked (of_nat i) = Ok (addr_at i)"
      by (simp add: cluster_peer_addr_Ok addr_at_def)
    moreover have "cluster_peer_addrs Checked (of_nat (Suc i)) ids (m @ [(j, addr_at i)]) =
      (if ids = [] \<or> Suc i + length ids \<le> 29993
       then Ok ((m @ [(j, addr_at i)]) @ zip ids (map addr_at [Suc i..<Suc i + length ids]))
       else Panicked ArithmeticOverflow)"
      by (rule Cons.IH) (use Cons.prems in auto)
    ultimately show ?thesis
      using True unfolding cluster_peer_addrs.simps(2) next_i upt hm_set_new [OF new] by (cases ids) auto
  next
    case False
    with Cons.prems(1) show ?thesis by (simp add: cluster_peer_addr_Ok)
  qed
qed simp

text \<open>The server of an address.\<close>

definition server_at ::
    "raft_node_cluster_config \<Rightarrow> (node_id, socket_addr) hashmap \<Rightarrow> node_id \<Rightarrow> socket_addr \<Rightarrow> 'r raft_node_server" where
  "server_at config seeds j addr =
     \<lparr>srv_id = j, srv_client_addr = SocketAddr (sa_ip addr) (sa_port addr + 1), srv_peer_addr = addr,
      srv_node =
        \<lparr>nd_id = j, nd_current_term = 0, nd_voted_for = None,
         nd_state = memory_state_default\<lparr>ms_membership := seeds\<rparr>, nd_channels = create_channels,
         nd_current_state = Follower, nd_election_timeout_range = cc_election_timeout_range config,
         nd_heartbeat_interval = cc_heartbeat_interval config, nd_leader_id = None,
         nd_last_heard_from_leader = None\<rparr>\<rparr>"

lemma cluster_servers_Ok:
  assumes "cluster_servers pr config seeds addrs servers = Ok built" and "distinct (map fst servers @ map fst addrs)"
  shows "built = servers @ map (\<lambda>(j, addr). (j, server_at config seeds j addr)) addrs"
  using assms
proof (induction addrs arbitrary: servers)
  case (Cons x addrs)
  obtain j addr where x: "x = (j, addr)" by force
  have new: "j \<notin> fst ` set servers" using Cons.prems(2) x by (auto simp: image_iff)
  from Cons.prems(1) x
  have "cluster_servers pr config seeds addrs (servers @ [(j, server_at config seeds j addr)]) = Ok built"
    by (auto simp: server_build_Ok server_at_def hm_set_new [OF new] u16_add_def split: if_splits)
  from Cons.IH [OF this] Cons.prems(2) x show ?case by simp
qed simp

lemma cluster_servers_run:
  assumes "\<And>j addr. (j, addr) \<in> set addrs \<Longrightarrow> unat (sa_port addr) + 1 < 2 ^ 16"
  shows "is_ok (cluster_servers pr config seeds addrs servers)"
  using assms
proof (induction addrs arbitrary: servers)
  case (Cons x addrs)
  obtain j addr where x: "x = (j, addr)" by force
  with Cons.prems [of j addr] have "u16_add pr (sa_port addr) 1 = Ok (sa_port addr + 1)"
    by (simp add: u16_add_def)
  moreover have "is_ok (cluster_servers pr config seeds addrs servers')" for servers' :: "(node_id \<times> 'a raft_node_server) list"
    by (rule Cons.IH) (use Cons.prems in auto)
  ultimately show ?case by (simp add: x server_build_Ok)
qed simp

lemma unat_port: "i < 29993 \<Longrightarrow> unat (sa_port (addr_at i)) = 5550 + 2 * i"
  unfolding addr_at_def socket_addr.sel by (simp only: unsigned_of_nat of_nat_id) (rule take_bit_nat_eq_self, simp)

text \<open>Building in the checked profile, for distinct ids.\<close>

lemma new_with_config_run:
  assumes "distinct ids" and "length ids < 2 ^ 16"
  shows "(new_with_config Checked ids config :: (node_id, 'r raft_node_server) hashmap outcome) =
    (if length ids \<le> 29993
     then (let seeds = zip ids (map addr_at [0..<length ids])
           in Ok (map (\<lambda>(j, addr). (j, server_at config seeds j addr)) seeds))
     else Panicked ArithmeticOverflow)"
proof (cases "length ids \<le> 29993")
  case True
  let ?seeds = "zip ids (map addr_at [0..<length ids])"
  have addrs: "cluster_peer_addrs Checked 0 ids [] = Ok ?seeds"
    using cluster_peer_addrs_run [of 0 ids "[]"] assms True by simp
  have "is_ok (cluster_servers Checked config ?seeds ?seeds [] :: (node_id, 'r raft_node_server) hashmap outcome)"
  proof (rule cluster_servers_run)
    fix j addr assume "(j, addr) \<in> set ?seeds"
    then obtain i where "i < length ids" "addr = addr_at i" by (auto simp: set_zip)
    with True unat_port [of i] show "unat (sa_port addr) + 1 < 2 ^ 16" by simp
  qed
  then obtain built :: "(node_id, 'r raft_node_server) hashmap"
    where built: "cluster_servers Checked config ?seeds ?seeds [] = Ok built" by (rule is_okE)
  have "distinct (map fst ?seeds)" using assms(1) by simp
  then have "built = map (\<lambda>(j, addr). (j, server_at config ?seeds j addr)) ?seeds"
    using cluster_servers_Ok [OF built] by simp
  moreover have "new_with_config Checked ids config = Ok built"
    by (simp only: new_with_config_def addrs built and_then.simps)
  ultimately show ?thesis using True by (simp only: Let_def if_True)
next
  case False
  then have "cluster_peer_addrs Checked 0 ids [] = Panicked ArithmeticOverflow"
    using cluster_peer_addrs_run [of 0 ids "[]"] assms by auto
  with False show ?thesis by (simp add: new_with_config_def)
qed

text \<open>In either profile the nodes of a built cluster know each other and nothing else.\<close>

lemma cluster_peer_addrs_keys:
  assumes "cluster_peer_addrs pr i ids m = Ok m'" and "is_hashmap m"
  shows "fst ` set m' = fst ` set m \<union> set ids \<and> is_hashmap m'"
  using assms
proof (induction pr i ids m rule: cluster_peer_addrs.induct)
  case (2 pr i j ids m)
  then obtain a where "cluster_peer_addrs pr (i + 1) ids (hm_set j a m) = Ok m'" by auto
  from "2.IH" [OF this] "2.prems"(2) show ?case by simp
qed simp

lemma new_with_config_servers:
  assumes "new_with_config pr ids config = Ok servers"
  obtains seeds where "fst ` set seeds = set ids" "is_hashmap seeds"
    "servers = map (\<lambda>(j, addr). (j, server_at config seeds j addr)) seeds"
proof -
  from assms obtain seeds where addrs: "cluster_peer_addrs pr 0 ids [] = Ok seeds"
    and built: "cluster_servers pr config seeds seeds [] = Ok servers"
    by (auto simp: new_with_config_def)
  from cluster_peer_addrs_keys [OF addrs] have keys: "fst ` set seeds = set ids" "is_hashmap seeds"
    by (simp_all add: is_hashmap_def)
  have "servers = map (\<lambda>(j, addr). (j, server_at config seeds j addr)) seeds"
    using cluster_servers_Ok [OF built] keys(2) by (simp add: is_hashmap_def)
  with keys show thesis by (rule that)
qed

lemma server_of_member:
  assumes "j \<in> fst ` set seeds"
  shows "\<exists>addr. hm_get (map (\<lambda>(j, addr). (j, f j addr)) seeds) j = Some (f j addr)"
  using assms unfolding hm_get_def by (induction seeds) auto

section \<open>The network\<close>

text \<open>\<open>enum Rpc\<close>: what goes over the wire.\<close>

datatype 'r rpc =
    RpcAppendEntries "'r append_entries_request"
  | RpcRequestVote request_vote_request

record 'r network =
  net_connect :: "socket_addr \<Rightarrow> unit outcome"
  net_append_entries :: "socket_addr \<Rightarrow> 'r append_entries_request \<Rightarrow> append_entries_response outcome"
  net_request_vote :: "socket_addr \<Rightarrow> request_vote_request \<Rightarrow> request_vote_response outcome"

text \<open>
  \<open>forward_outgoing_requests\<close> carries one request after the other, each to its end. Whatever fails
  on the way ends the task with \<open>?\<close>, and an answer that does not come keeps it waiting. The result is
  the replies handed on, what is left in the queue, and how the task stands.
\<close>

definition forward_request ::
    "('r memory_state, 'r) raft_node \<Rightarrow> 'r network \<Rightarrow> node_id \<times> 'r peer_rpc \<Rightarrow> unit reply outcome" where
  "forward_request n net message =
     (case message of (peer, request) \<Rightarrow>
        (case get_peer memory_ops peer n of
           None \<Rightarrow> Err (custom ''Node ID not found.'')
         | Some addr \<Rightarrow>
             and_then (net_connect net addr) (\<lambda>_.
             case request of
               AppendEntries req tx \<Rightarrow>
                 and_then (net_append_entries net addr req) (\<lambda>r. map_outcome AppendReply (send_response tx r))
             | RequestVote req tx \<Rightarrow>
                 and_then (net_request_vote net addr req) (\<lambda>r. map_outcome VoteReply (send_response tx r))
             | Config _ _ \<Rightarrow> Ok NoReply
             | InstallSnapshot _ _ \<Rightarrow> Ok NoReply)))"

fun forward_outgoing_requests ::
    "('r memory_state, 'r) raft_node \<Rightarrow> 'r network \<Rightarrow> (node_id \<times> 'r peer_rpc) list
       \<Rightarrow> unit reply list \<times> (node_id \<times> 'r peer_rpc) list \<times> unit outcome" where
  "forward_outgoing_requests n net [] = ([], [], Blocked)"
| "forward_outgoing_requests n net (message # rest) =
     (case forward_request n net message of
        Ok reply \<Rightarrow> (case forward_outgoing_requests n net rest of (replies, left) \<Rightarrow> (reply # replies, left))
      | Err e \<Rightarrow> ([], rest, Err e)
      | Panicked p \<Rightarrow> ([], rest, Panicked p)
      | Blocked \<Rightarrow> ([], rest, Blocked))"

text \<open>
  The peer server hands a request to the node with a response channel of its own and waits there;
  a turn of the main loop answers it.
\<close>

definition peer_request :: "'r rpc \<Rightarrow> 'r peer_rpc" where
  "peer_request rpc =
     (case rpc of
        RpcAppendEntries req \<Rightarrow> AppendEntries req Alive
      | RpcRequestVote req \<Rightarrow> RequestVote req Alive)"

definition peer_server_accept :: "'r rpc \<Rightarrow> ('s, 'r, unit) node_comp" where
  "peer_server_accept rpc = on_in_rpc (channel_send (peer_request rpc))"

definition peer_server_turn :: "('s, 'r) state_ops \<Rightarrow> instant \<Rightarrow> 'r rpc \<Rightarrow> ('s, 'r, 'p reply) node_comp" where
  "peer_server_turn ops now rpc = then_c (peer_server_accept rpc) (rpc_branch ops now)"

text \<open>The client server does the same with a client request; its answer comes from the node as well.\<close>

definition client_server_accept :: "'r \<Rightarrow> ('s, 'r, unit) node_comp" where
  "client_server_accept request = on_in_client (channel_send (ClientRequest request Alive))"

lemma peer_server_answers:
  assumes "in_rpc (nd_channels n) = unbounded_channel"
  shows "peer_server_turn ops now (RpcRequestVote req) n =
      (case respond_to_request_vote ops req Alive n of (r, n') \<Rightarrow> (map_outcome VoteReply r, n'))"
    "peer_server_turn ops now (RpcAppendEntries areq) n =
      (case respond_to_append_entries ops now areq Alive n of (r, n') \<Rightarrow> (map_outcome AppendReply r, n'))"
proof -
  have same: "n\<lparr>nd_channels := (nd_channels n)\<lparr>in_rpc := unbounded_channel\<rparr>\<rparr> = n"
    using assms by (cases n; cases "nd_channels n") simp
  have accept: "peer_server_accept rpc n = (Ok (), n\<lparr>nd_channels := (nd_channels n)
      \<lparr>in_rpc := unbounded_channel\<lparr>ch_queue := [peer_request rpc]\<rparr>\<rparr>\<rparr>)" for rpc
    using assms by (simp add: peer_server_accept_def on_in_rpc_def zoom_c_def channel_send_def channel_full_def
        unbounded_channel_def)
  have recv: "recv_some (on_in_rpc channel_recv) (n\<lparr>nd_channels := (nd_channels n)
      \<lparr>in_rpc := unbounded_channel\<lparr>ch_queue := [m]\<rparr>\<rparr>\<rparr>) = (Ok m, n)" for m
    using same by (simp add: recv_some_def on_in_rpc_def zoom_c_def channel_recv_def bind_c_def outcome_simps
        unbounded_channel_def)
  show "peer_server_turn ops now (RpcRequestVote req) n =
      (case respond_to_request_vote ops req Alive n of (r, n') \<Rightarrow> (map_outcome VoteReply r, n'))"
    using accept recv by (simp add: peer_server_turn_def rpc_branch_def then_c_def bind_c_def peer_request_def return_c_def
        split: prod.split outcome.split)
  show "peer_server_turn ops now (RpcAppendEntries areq) n =
      (case respond_to_append_entries ops now areq Alive n of (r, n') \<Rightarrow> (map_outcome AppendReply r, n'))"
    using accept recv by (simp add: peer_server_turn_def rpc_branch_def then_c_def bind_c_def peer_request_def return_c_def
        split: prod.split outcome.split)
qed

text \<open>The requests a session sends wait in the order in which it sends them.\<close>

lemma send_to_peers_queue:
  assumes "ch_receiver (out_rpc (nd_channels (vs_node s))) = Alive"
    and "ch_capacity (out_rpc (nd_channels (vs_node s))) = None"
  shows "ch_queue (out_rpc (nd_channels (vs_node (send_to_peers ops ps s)))) =
    ch_queue (out_rpc (nd_channels (vs_node s))) @
      map (\<lambda>p. (p, RequestVote (request_vote_request_of ops (vs_node s)) Alive)) ps"
  using assms
proof (induction ps arbitrary: s)
  case (Cons p ps)
  from Cons.prems have emit: "snd (emit_request_vote ops p (vs_node s)) = (vs_node s)\<lparr>nd_channels := (nd_channels (vs_node s))
      \<lparr>out_rpc := (out_rpc (nd_channels (vs_node s)))\<lparr>ch_queue := ch_queue (out_rpc (nd_channels (vs_node s))) @
        [(p, RequestVote (request_vote_request_of ops (vs_node s)) Alive)]\<rparr>\<rparr>\<rparr>"
    by (simp add: emit_request_vote_def on_out_rpc_def channel_send_def channel_full_def bind_c_def outcome_simps)
  from Cons.IH [of "s\<lparr>vs_node := snd (emit_request_vote ops p (vs_node s))\<rparr>"] Cons.prems show ?case
    by (simp add: emit request_vote_request_of_def)
qed simp

lemma forward_stops:
  assumes "forward_request n net message = Err e"
  shows "case forward_outgoing_requests n net (before @ message # after) of (replies, left, stopped) \<Rightarrow>
    length replies \<le> length before \<and> suffix after left \<and> \<not> is_ok stopped \<and>
    (length replies = length before \<longrightarrow> left = after \<and> stopped = Err e)"
  using assms
proof (induction before)
  case (Cons m before)
  then show ?case by (cases "forward_request n net m") (auto simp: is_ok_def suffix_def split: outcome.splits prod.splits)
qed (simp add: is_ok_def)

text \<open>The nodes of a built cluster, once started.\<close>

lemma started_nodes:
  fixes servers :: "(node_id, 'r raft_node_server) hashmap"
  assumes "new_with_config pr ids config = Ok servers"
  obtains seeds where "fst ` set seeds = set ids" "is_hashmap seeds"
    "\<And>i. i \<in> set ids \<Longrightarrow> \<exists>addr. cl_main (cluster_start servers) i = Dispatching (srv_node (server_at config seeds i addr))"
proof -
  obtain seeds where keys: "fst ` set seeds = set ids" "is_hashmap seeds"
    and servers: "servers = map (\<lambda>(j, addr). (j, server_at config seeds j addr)) seeds"
    using new_with_config_servers [OF assms] .
  have "\<exists>addr. cl_main (cluster_start servers) i = Dispatching (srv_node (server_at config seeds i addr))"
    if "i \<in> set ids" for i
    using server_of_member [of i seeds "server_at config seeds :: _ \<Rightarrow> _ \<Rightarrow> 'r raft_node_server"] that keys(1)
    by (auto simp: cluster_start_def servers)
  with keys show thesis by (rule that)
qed

lemma started_cluster:
  assumes "new_with_config pr ids config = Ok servers"
  shows "cluster_starts memory_ops (set ids) (cluster_start servers)"
proof -
  obtain seeds where keys: "fst ` set seeds = set ids" "is_hashmap seeds" and node:
    "\<And>i. i \<in> set ids \<Longrightarrow> \<exists>addr. cl_main (cluster_start servers) i = Dispatching (srv_node (server_at config seeds i addr))"
    using started_nodes [OF assms] by blast
  have "nd_id (cl_node (cluster_start servers) i) = i \<and>
      member_ids memory_ops (cl_node (cluster_start servers) i) = set ids \<and>
      is_hashmap (get_membership memory_ops (nd_state (cl_node (cluster_start servers) i))) \<and>
      vote_session_of (cl_main (cluster_start servers) i) = None" if "i \<in> set ids" for i
    using node [OF that] keys by (auto simp: cl_node_def server_at_def member_ids_def memory_state_default_def)
  then show ?thesis
    by (simp add: cluster_starts_def) (simp add: cluster_start_def)
qed

lemma started_fresh:
  assumes built: "new_with_config pr ids config = Ok servers"
    and range: "fst (cc_election_timeout_range config) < snd (cc_election_timeout_range config)"
  shows "fresh_cluster memory_ops (set ids) (cluster_start servers)"
    "i \<in> set ids \<Longrightarrow> nd_current_term (cl_node (cluster_start servers) i) = 0 \<and>
       own_position memory_ops (nd_state (cl_node (cluster_start servers) i)) = Log_Position 0 0"
proof -
  obtain seeds where node:
    "\<And>i. i \<in> set ids \<Longrightarrow> \<exists>addr. cl_main (cluster_start servers) i = Dispatching (srv_node (server_at config seeds i addr))"
    using started_nodes [OF built] by blast
  have "fresh_member (cl_main (cluster_start servers) i)" if "i \<in> set ids" for i
    using node [OF that] range by (auto simp: fresh_member_def server_at_def)
  then show "fresh_cluster memory_ops (set ids) (cluster_start servers)"
    using started_cluster [OF built] by (simp add: fresh_cluster_def)
  show "i \<in> set ids \<Longrightarrow> nd_current_term (cl_node (cluster_start servers) i) = 0 \<and>
      own_position memory_ops (nd_state (cl_node (cluster_start servers) i)) = Log_Position 0 0"
    using node [of i] by (auto simp: cl_node_def server_at_def own_position_def memory_defs memory_state_default_def)
qed

section \<open>Properties\<close>

text \<open>
  C35. The cluster the tests build is one that election safety speaks of: whatever ids are drawn, in
  either build profile and with any timings, once its nodes are built and started every member has
  its own id, all have the same membership - exactly the ids drawn -, and none has a session open.
\<close>

theorem new_cluster_starts:
  fixes servers :: "(node_id, 'r raft_node_server) hashmap"
  assumes "new_with_config pr ids config = Ok servers"
  shows "cluster_starts memory_ops (set ids) (cluster_start servers)"
  by (rule started_cluster [OF assms])

definition sample_config :: raft_node_cluster_config where
  "sample_config = \<lparr>cc_election_timeout_range = (150, 300), cc_heartbeat_interval = 50\<rparr>"

theorem new_cluster_starts_witness:
  "\<exists>servers :: (node_id, nat raft_node_server) hashmap.
     new_with_config Checked [1, 2, 3] sample_config = Ok servers \<and> length servers = 3 \<and>
     cluster_starts memory_ops {1, 2, 3} (cluster_start servers)"
proof -
  let ?built = "new_with_config Checked [1, 2, 3] sample_config :: (node_id, nat raft_node_server) hashmap outcome"
  obtain servers where built: "?built = Ok servers" and "length servers = 3"
    using new_with_config_run [of "[1, 2, 3]" sample_config, where ?'r = nat] by (auto simp: Let_def)
  moreover have "cluster_starts memory_ops {1, 2, 3} (cluster_start servers)"
    using new_cluster_starts [OF built] by simp
  ultimately show ?thesis by blast
qed

text \<open>
  C36. The cluster the tests build can elect any of its members, in any term but 0: whatever ids are
  drawn and in either build profile, once it is started with a timeout range that is not empty there
  is a run, with no term dropped, that makes the member leader of the term and no other node of any.
  As there, the time limits of the sessions' tasks are not imposed on it.
\<close>

theorem test_cluster_elects:
  fixes servers :: "(node_id, 'r raft_node_server) hashmap"
  assumes built: "new_with_config pr ids config = Ok servers"
    and range: "fst (cc_election_timeout_range config) < snd (cc_election_timeout_range config)"
    and j: "j \<in> set ids" and T: "0 < T"
  shows "\<exists>C. cluster_run pr memory_ops gen_range term_kept (set ids) (cluster_start servers) C \<and> cl_elected C = {(T, j)} \<and>
    nd_current_state (cl_node C j) = Leader \<and> nd_current_term (cl_node C j) = T"
proof -
  note start = started_fresh [OF built range]
  have "best_log memory_ops (set ids) (cluster_start servers) j" using start(2) j by (simp add: best_log_def)
  moreover have low: "\<forall>i \<in> set ids. nd_current_term (cl_node (cluster_start servers) i) < T" using start(2) T by simp
  moreover have "set ids \<noteq> {}" using j by auto
  ultimately show ?thesis
    using conjunct2 [OF fresh_cluster_can_elect [OF memory.total_log_axioms start(1) _ low, of pr gen_range]] by simp
qed

theorem test_cluster_elects_witness:
  "\<exists>(servers :: (node_id, nat raft_node_server) hashmap) C. new_with_config Checked [1, 2, 3] sample_config = Ok servers \<and>
     cluster_run Checked memory_ops low_end term_kept {1, 2, 3} (cluster_start servers) C \<and> cl_elected C = {(1, 2)}"
proof -
  let ?built = "new_with_config Checked [1, 2, 3] sample_config :: (node_id, nat raft_node_server) hashmap outcome"
  obtain servers where built: "?built = Ok servers"
    using new_with_config_run [of "[1, 2, 3]" sample_config, where ?'r = nat] by (auto simp: Let_def)
  from test_cluster_elects [OF this, of 2 1 low_end] built show ?thesis by (auto simp: sample_config_def)
qed

text \<open>
  C37. One member that is down can silence a node: of the vote requests a session sends, at most those
  are answered that wait before one for a peer whose address refuses the connection, and all those behind
  it stay in the queue. The task that forwards them does not get past it: if all before it were answered,
  it ends with the error of the refused connection and exactly those behind it are left.
\<close>

theorem unreachable_peer_silences_node:
  assumes drained: "out_rpc (nd_channels n) = unbounded_channel"
    and session: "vs_node s = n"
    and down: "get_peer memory_ops p n = Some addr" "net_connect net addr = Err e"
    and asked: "ps = before @ p # after"
  shows "\<exists>replies left stopped.
    forward_outgoing_requests n net (ch_queue (out_rpc (nd_channels (vs_node (send_to_peers memory_ops ps s))))) =
      (replies, left, stopped) \<and>
    length replies \<le> length before \<and>
    suffix (map (\<lambda>q. (q, RequestVote (request_vote_request_of memory_ops n) Alive)) after) left \<and>
    \<not> is_ok stopped \<and>
    (length replies = length before \<longrightarrow>
       left = map (\<lambda>q. (q, RequestVote (request_vote_request_of memory_ops n) Alive)) after \<and> stopped = Err e)"
proof -
  let ?message = "\<lambda>q. (q, RequestVote (request_vote_request_of memory_ops n) Alive)"
  have "forward_request n net (?message p) = Err e"
    using down by (simp add: forward_request_def)
  from forward_stops [OF this, of "map ?message before" "map ?message after"] show ?thesis
    using drained session asked by (auto simp: send_to_peers_queue unbounded_channel_def split: prod.splits)
qed

definition cut_node :: "(nat memory_state, nat) raft_node" where
  "cut_node = vs_node (vote_session_initialize (sample_node 1 ((sample_state 1 [])
     \<lparr>ms_membership := [(1, addr_at 0), (2, addr_at 1), (3, addr_at 2)]\<rparr>)))"

definition cut_network :: "nat network" where
  "cut_network =
     \<lparr>net_connect = (\<lambda>addr. if addr = addr_at 1 then Err (custom ''connection refused'') else Ok ()),
      net_append_entries = (\<lambda>_ _. Blocked), net_request_vote = (\<lambda>_ req. Ok (sample_vote_reply 3 RvOk))\<rparr>"

text \<open>Node 2 is down and asked first: node 3, which would grant, is never asked.\<close>

theorem unreachable_peer_silences_node_witness:
  "forward_outgoing_requests cut_node cut_network (ch_queue (out_rpc (nd_channels (vs_node (send_to_peers memory_ops [2, 3]
     \<lparr>vs_ack_peers = {}, vs_node = cut_node, vs_vote_result = bounded_channel 1, vs_granted_votes = 1\<rparr>))))) =
   ([], [(3, RequestVote (request_vote_request_of memory_ops cut_node) Alive)], Err (custom ''connection refused''))"
proof -
  let ?s = "\<lparr>vs_ack_peers = {}, vs_node = cut_node, vs_vote_result = bounded_channel 1, vs_granted_votes = 1\<rparr>"
  have "out_rpc (nd_channels cut_node) = unbounded_channel"
    by (simp add: cut_node_def vote_session_initialize_def node_change_defs sample_node_def create_channels_def)
  moreover have "get_peer memory_ops 2 cut_node = Some (addr_at 1)"
    by (simp add: cut_node_def vote_session_initialize_def node_change_defs sample_node_def get_peer_def hm_get_def)
  moreover have "net_connect cut_network (addr_at 1) = Err (custom ''connection refused'')"
    by (simp add: cut_network_def)
  ultimately show ?thesis
    using unreachable_peer_silences_node [of cut_node ?s 2 "addr_at 1" cut_network _ "[2, 3]" "[]" "[3]"] by auto
qed

text \<open>
  Ports: in the checked profile a cluster can be built exactly up to 29993 members, and then all its
  addresses differ; beyond, the arithmetic on the ports overflows.
\<close>

lemma test_cluster_ports:
  assumes "distinct ids" and "length ids < 2 ^ 16"
  shows "if length ids \<le> 29993
    then \<exists>servers :: (node_id, 'r raft_node_server) hashmap. new_with_config Checked ids config = Ok servers \<and>
      map fst servers = ids \<and>
      distinct (map (\<lambda>(_, s). srv_peer_addr s) servers @ map (\<lambda>(_, s). srv_client_addr s) servers)
    else (new_with_config Checked ids config :: (node_id, 'r raft_node_server) hashmap outcome) = Panicked ArithmeticOverflow"
proof (cases "length ids \<le> 29993")
  case True
  let ?n = "length ids"
  let ?seeds = "zip ids (map addr_at [0..<?n])"
  let ?servers = "map (\<lambda>(j, addr). (j, server_at config ?seeds j addr)) ?seeds :: (node_id, 'r raft_node_server) hashmap"
  have built: "(new_with_config Checked ids config :: (node_id, 'r raft_node_server) hashmap outcome) = Ok ?servers"
    using new_with_config_run [OF assms, of config, where ?'r = 'r] True by (simp only: Let_def if_True)
  have keys: "map fst ?servers = ids"
    by (simp add: map_fst_zip split_def comp_def)
  have peers: "map (\<lambda>(_, s). srv_peer_addr s) ?servers = map addr_at [0..<?n]"
    by (rule nth_equalityI) (simp_all add: server_at_def)
  have clients: "map (\<lambda>(_, s). srv_client_addr s) ?servers =
      map (\<lambda>i. SocketAddr localhost (sa_port (addr_at i) + 1)) [0..<?n]"
    by (rule nth_equalityI) (simp_all add: server_at_def addr_at_def)
  have "distinct (map addr_at [0..<?n] @ map (\<lambda>i. SocketAddr localhost (sa_port (addr_at i) + 1)) [0..<?n])"
  proof -
    have small: "i < 29993" if "i < ?n" for i
      using that True by linarith
    have port: "unat (sa_port (addr_at i) + 1) = 5551 + 2 * i" if "i < ?n" for i
      using unat_port [OF small [OF that]] small [OF that] by (simp add: unat_word_ariths)
    have inj: "inj_on addr_at {0..<?n}"
    proof (rule inj_onI)
      fix i k assume i: "i \<in> {0..<?n}" and k: "k \<in> {0..<?n}" and "addr_at i = addr_at k"
      then have "unat (sa_port (addr_at i)) = unat (sa_port (addr_at k))" by simp
      with unat_port [OF small, of i] unat_port [OF small, of k] i k show "i = k" by simp
    qed
    have inj': "inj_on (\<lambda>i. SocketAddr localhost (sa_port (addr_at i) + 1)) {0..<?n}"
    proof (rule inj_onI)
      fix i k assume i: "i \<in> {0..<?n}" and k: "k \<in> {0..<?n}"
        and "SocketAddr localhost (sa_port (addr_at i) + 1) = SocketAddr localhost (sa_port (addr_at k) + 1)"
      then have "unat (sa_port (addr_at i) + 1) = unat (sa_port (addr_at k) + 1)" by simp
      with port [of i] port [of k] i k show "i = k" by simp
    qed
    have apart: "addr_at i \<noteq> SocketAddr localhost (sa_port (addr_at k) + 1)" if "i < ?n" "k < ?n" for i k
    proof
      assume "addr_at i = SocketAddr localhost (sa_port (addr_at k) + 1)"
      then have "unat (sa_port (addr_at i)) = unat (sa_port (addr_at k) + 1)" by (metis socket_addr.sel(2))
      with port [OF that(2)] unat_port [OF small [OF that(1)]] have "5550 + 2 * i = 5551 + 2 * k" by linarith
      then show False by presburger
    qed
    from inj inj' apart show ?thesis by (auto simp: distinct_map)
  qed
  then have "distinct (map (\<lambda>(_, s). srv_peer_addr s) ?servers @ map (\<lambda>(_, s). srv_client_addr s) ?servers)"
    by (simp only: peers clients)
  with built keys show ?thesis unfolding if_P [OF True] by blast
next
  case False
  with new_with_config_run [OF assms, of config] show ?thesis by simp
qed

end
