(* ===== verification/Spec2Isabelle.thy ===== *)
theory Spec2Isabelle
  imports Prelude Messages Timeouts State_Trait Memory_State Raft_Node Builder Common Quorum
    Vote_Session Replication Roles Node_System Node_Relations Sessions Ballot Cluster Scripts
    Elections Cluster_Elections Cluster_Liveness Timely_Runs Split_Vote Stale_Result Logs Leader_Sessions Lifecycle Commit_Bound Tasks Preemption
    Races Test_Cluster
begin

text \<open>
  \<^bold>\<open>A verification development for the crate zeroraft\<close>

  zeroraft (\<open>zeroraft/src\<close>) is an implementation of the Raft consensus protocol on tokio. A
  \<open>RaftNode\<close> (\<open>node.rs\<close>) is built by a \<open>RaftNodeBuilder\<close> (\<open>builder.rs\<close>) over a store, a type
  that implements the trait \<open>State\<close> (\<open>state.rs\<close>), and talks to the outside over channels
  (\<open>channels.rs\<close>). Its main loop runs one role after the other (\<open>role/role_follower.rs\<close>,
  \<open>role_candidate.rs\<close>, \<open>role_leader.rs\<close>), each a \<open>select!\<close> over messages, client requests and
  timers (\<open>timeout.rs\<close>); a candidate's vote session and a leader's replication session run in
  tasks of their own, which share the node with the main loop. Every role answers its peers with
  the two handlers of \<open>role/common.rs\<close>.

  \<^bold>\<open>The model\<close>

  \<^item> Prelude: errors (\<open>error.rs\<close>) as a datatype, the outcome of a Rust function (a value, an error
    returned with \<open>?\<close>, a panic, or an await that cannot complete) and state-passing computations
    over it, which keep the writes made before a failure; \<open>u64\<close> as \<open>64 word\<close> with the build
    profile that decides whether overflow panics; \<open>HashMap\<close> as an association list whose order is
    the unspecified iteration order.
  \<^item> Messages: requests, responses, commands, log entries, the running state of a node and its
    channels. Timeouts: the timers, with the clock reading and the random number as arguments.
  \<^item> State_Trait: a store is a record of operations, its contract the locales \<open>raft_log\<close> and
    \<open>total_log\<close> over an abstract log, with the index of the first entry as the parameter \<open>base\<close>;
    \<open>fixed_membership\<close> and \<open>steady_commit\<close> say less, and of calls that fail too.
    Memory_State: the store of the repository's tests (\<open>tests/fixtures/state.rs\<close>), an instance
    with \<open>base = 0\<close>, and the same store with the indexing that the trait documents, with
    \<open>base = 1\<close>.
  \<^item> Raft_Node and Builder: the node's fields as one record, its methods, outgoing RPCs, and the
    builder. Common: the two handlers.
  \<^item> Quorum, Vote_Session: what a candidate counts and how it reacts to each answer; the rule by
    which it counts is an instance of the interface \<open>quorum_system\<close>.
  \<^item> Replication: the leader's table of peers behind its lock, heartbeats, the standby task and the
    peer tasks, the computation of the commit index; its majorities are the second instance of
    \<open>quorum_system\<close>, for an index that the code never gets, as its caller blocks first. The lock is part of the state, so that a task that waits for it is seen.
  \<^item> Roles: the loops of the three roles, one definition for each half of a turn (entering the
    \<open>select!\<close>, running the branch it picked). Node_System: the node as a state machine, in which
    turns of the main loop, steps of the spawned tasks and moves of the outside interleave in any
    order, labelled with the votes they cast. Scripts: computing runs of that machine.
  \<^item> Node_Relations: the interfaces \<open>kept_by_tasks\<close> and \<open>kept_by_writes\<close>. What every single write to a
    node keeps, as a preorder on nodes, every step of the machine keeps, however it ends. Instances:
    the fields the builder sets for good; the membership, for every store that is a
    \<open>fixed_membership\<close>; a bound on commit indexes, for every store that is a \<open>steady_commit\<close>.
  \<^item> Sessions, Cluster: nodes that ask each other for votes. A step of the cluster is a step of one
    node, with the vote messages between nodes made explicit and everything else left to chance;
    ghost fields record the votes cast, the messages under way and who became leader. Ballot: what
    an election promises, as an abstract machine that a cluster refines.
  \<^item> Timely_Runs: cluster runs on one clock, in which no timer is overdue and every answer is read
    before the task that asked is cut off.
  \<^item> Tasks, Preemption: the same handlers and tasks at a finer grain. A task is a tree of atomic
    accesses to shared data, one per lock taken and per operation on the atomic term; between two
    accesses of one task any other may run.
  \<^item> Test_Cluster: the cluster and the server of the repository's tests (\<open>tests/fixtures/cluster.rs\<close>,
    \<open>server.rs\<close>): building a cluster that knows itself, starting it, shutting it down, and the tasks
    that carry messages between nodes, over a network that is an argument.

  \<^bold>\<open>What is shown\<close>

  \<^item> Cluster_Elections: a cluster has at most one leader elected per term, it refines the ballot, and
    no candidate counts more votes than were cast for it - all for runs in which no node's term
    drops; and a node without peers has a run in which it becomes leader.
  \<^item> Cluster_Liveness: from a fresh start a cluster of any size can elect, any member whose log no
    other's exceeds, in any term above the members' terms.
  \<^item> Split_Vote: the code does not ensure that condition. A timely run of a cluster of four, evaluated
    in stages, ends with two leaders of one term. Stale_Result: and even in a run that satisfies it, a
    node that won a term and was moved on to a newer one before it took up the result leads the newer
    term, in which nobody voted for it.
  \<^item> Races: interleaved with tasks that only ask for votes, the handlers cut into accesses end as the
    atomic ones do; interleaved with anything, they keep the node's identity and membership, and one vote
    per term as long as no access lowers the term; but a vote handler that is preempted lowers the term, and a vote request composed during
    an append names a log that never was.
  \<^item> Elections: one vote per term along every run that does not lower the term, and election
    safety from it; which steps lower the term, and that an answer which
    lowers it makes a candidate vote twice; who can become leader; when a vote is granted, that it is durable, and what a refusal
    costs; that a granted vote outlives a restart and that the log test never rules out every
    candidate; when a win is announced and which majorities are not enough; what a crash forgets.
  \<^item> Logs: the effect of every \<open>AppendEntries\<close> on log and commit index; that composing and
    accepting entries makes two logs equal under the documented indexing, and what happens to
    logs under heartbeats and under the test store's indexing; how the replication tasks end, deadlock or panic.
  \<^item> Commit_Bound: no run of a whole system, over any network that invents no append request, moves
    a commit index above those at the start, so that a fresh system never commits.
  \<^item> Leader_Sessions: the leader's table of peers and its lock stay well formed through every task,
    what repeated refusals do to a peer's next index, and that nothing is sent before the first
    commit.
  \<^item> Lifecycle: building from a store, timers and the end of a node whose loop is late, client requests,
    channels.
  \<^item> Test_Cluster: the cluster the tests build is one that the cluster theorems speak of, and can
    elect any of its members; its addresses and the bound on its size; what one unreachable member does to a node.

  A component's own lemmas stand beside its definitions: preservation rules for two-state
  guarantees (\<open>guarantees\<close>, collected in \<open>guarantee_intros\<close>) reduce what a whole handler or task
  does to a node to its primitive steps, and an elimination rule per handler
  (\<open>respond_to_request_voteE\<close>, \<open>respond_to_append_entriesE\<close>, \<open>on_vote_responseE\<close>) lists what an
  answered message did.

  \<^bold>\<open>Bounds and choices\<close>

  In a cluster a message may be delayed, reordered or lost and a request delivered twice; no vote
  request is forged and each answer is read once, as it comes back on a channel of its own. An
  elected leader is one made leader while still a candidate: a result left waiting while an old
  task moves the node to another term is not counted as an election of that term (Stale_Result has
  such a run).

  A step of the node or cluster machine reads any clock, and the machine records when a session's task
  is cut off but does not cut it off; Timely_Runs imposes both. A role that starts reads the clock
  once for its timers and for the tasks it spawns, so that the interval between is taken as nothing.

  There is no fuel: the loops of the tasks recurse over the list of answers they get to read, the
  main loop is a step relation. In the node and cluster machines methods and message handlers are
  atomic; Preemption interleaves them access by access, on one node. Counters that the code keeps as \<open>usize\<close> and that
  count messages or members are \<open>nat\<close>; \<open>as usize\<close> and \<open>as u64\<close> are the identity on a 64-bit
  target. Instants are nanoseconds as \<open>nat\<close>.

  \<^bold>\<open>Not modelled\<close>

  Tracing output; serialisation (derived by serde); sockets and connections, of which Test_Cluster
  knows only what connecting, sending and reading an answer come to, and the cluster machine only
  the above; snapshots, membership changes
  and non-voters, which the code does not implement - its \<open>todo!\<close> and \<open>unimplemented!\<close> arms are
  panics of the model; the test modules and the repository's configuration.
\<close>

end
